theory Spec2Isabelle
  imports Complex_Main "HOL-Library.Char_ord" "HOL-Library.List_Lexorder" "HOL-Library.Product_Lexorder"
begin

section \<open>Time, values and errors\<close>

text \<open>
  A \<^verbatim>\<open>pd.Timestamp\<close> is an integer count of nanoseconds since the epoch and a
  \<^verbatim>\<open>pd.Timedelta\<close> an integer count of nanoseconds; both are modelled as \<open>int\<close>
  (the 64-bit bound of pandas is not modelled). Python floats are modelled as \<open>real\<close>.
  The arithmetic on the y values is that of the reals, so its rounding is not modelled;
  the float product that turns a click into seconds is a parameter (see \<open>x_pd\<close>).
\<close>

type_synonym timestamp = int
type_synonym timedelta = int

definition one_second :: timedelta where
  "one_second = 1000000000"

datatype error = IndexError | ValueError | ZeroDivisionError | EOFError | KeyError | TypeError

text \<open>What the program prints with \<^verbatim>\<open>print\<close>, one constructor per message.\<close>

datatype message =
    ReceivedInvalidPoints
  | ColumnsNotFound "string list"
  | ConditionNotMet
  | MustProvideResponse

text \<open>A cell of a pandas DataFrame.\<close>

datatype cell = Num real | Str string | Time timestamp | NaN

section \<open>pandas date ranges\<close>

text \<open>
  \<^verbatim>\<open>pd.date_range(s, e, freq=p)\<close>: the timestamps \<open>s, s + p, s + 2p, ...\<close> that do not
  pass \<open>e\<close>. A negative frequency counts down from \<open>s\<close> to \<open>e\<close>; a zero frequency is
  rejected by pandas (the model returns \<open>ValueError\<close> for it).
\<close>

definition date_range :: "timestamp \<Rightarrow> timestamp \<Rightarrow> timedelta \<Rightarrow> error + timestamp list" where
  "date_range s e p =
     (if p = 0 then Inl ValueError
      else if 0 < p then
        Inr (if s \<le> e then map (\<lambda>i. s + int i * p) [0 ..< nat ((e - s) div p) + 1] else [])
      else
        Inr (if e \<le> s then map (\<lambda>i. s + int i * p) [0 ..< nat ((s - e) div (- p)) + 1] else []))"

text \<open>
  \<^verbatim>\<open>pd.date_range(s, e, freq=p, inclusive="left")\<close>: the same range, with its last
  element dropped when that element is \<open>e\<close> itself.
\<close>

definition date_range_left :: "timestamp \<Rightarrow> timestamp \<Rightarrow> timedelta \<Rightarrow> error + timestamp list" where
  "date_range_left s e p =
     (case date_range s e p of
        Inl err \<Rightarrow> Inl err
      | Inr xs \<Rightarrow> Inr (if xs \<noteq> [] \<and> last xs = e then butlast xs else xs))"

section \<open>The PlotArtist state\<close>

text \<open>
  The fields of \<^verbatim>\<open>PlotArtist\<close> that the capture algorithm reads and writes. The
  matplotlib figure and axes are not modelled: drawing has no effect on these fields.
  \<open>utc_offset\<close> stands for \<^verbatim>\<open>self.tz\<close>: the offset of the time zone from UTC, taken
  as fixed (0 for UTC or for no time zone). \<open>df_index\<close> and \<open>df_columns\<close> are the index
  and the columns of \<^verbatim>\<open>self.df\<close>; \<open>out\<close> collects what is printed.
\<close>

record plot_artist =
  start :: timestamp
  end_ts :: timestamp
  utc_offset :: timedelta
  period :: timedelta
  allowed_x :: "timestamp list"
  df_index :: "cell list"
  df_columns :: "(string \<times> cell list) list"
  points :: "(timestamp \<times> real) list"
  current_x :: "timestamp option"
  out :: "message list"

text \<open>\<^verbatim>\<open>PlotArtist.__init__\<close>: the grid is \<^verbatim>\<open>pd.date_range(start, end - 1s, freq=period)\<close>.\<close>

definition init_artist :: "timestamp \<Rightarrow> timestamp \<Rightarrow> timedelta \<Rightarrow> timedelta \<Rightarrow> error + plot_artist" where
  "init_artist s e off p =
     (case date_range s (e - one_second) p of
        Inl err \<Rightarrow> Inl err
      | Inr xs \<Rightarrow>
          Inr \<lparr> start = s, end_ts = e, utc_offset = off, period = p, allowed_x = xs,
                df_index = map Time xs, df_columns = [], points = [], current_x = None,
                out = [] \<rparr>)"

section \<open>Snapping a click to the grid\<close>

text \<open>
  The click's x is a matplotlib date number: days since the epoch, in UTC. The source
  computes \<^verbatim>\<open>x_sel * 60 * 60 * 24\<close> in floating point, takes \<^verbatim>\<open>time.gmtime\<close> of the
  product (whole seconds, rounded down) and builds a Timestamp from those UTC calendar
  fields in \<^verbatim>\<open>self.tz\<close>, which moves it by the offset of the zone.

  The rounding of the three float products can decide which second the click falls in,
  so the float multiplication is not taken to be exact: it is the parameter \<open>fmul\<close> of
  \<open>x_pd\<close> and of the functions that reach it. \<open>exact_product\<close> is the multiplication
  of the reals, which is what the float product is on operands whose product needs no
  rounding; the sample clicks below are such.
\<close>

definition exact_product :: "real \<Rightarrow> real \<Rightarrow> real" where
  "exact_product x y = x * y"

definition x_pd :: "(real \<Rightarrow> real \<Rightarrow> real) \<Rightarrow> plot_artist \<Rightarrow> real \<Rightarrow> timestamp" where
  "x_pd fmul a x_sel =
     (let x_to_seconds = fmul (fmul (fmul x_sel 60) 60) 24
      in \<lfloor>x_to_seconds\<rfloor> * one_second - utc_offset a)"

text \<open>
  \<^verbatim>\<open>get_target_x_coord\<close>. \<^verbatim>\<open>sorted\<close> is stable, as \<open>sort_key\<close> is.
  \<^verbatim>\<open>allowed_x[0]\<close> raises IndexError on an empty grid.
\<close>

definition get_target_x_coord ::
  "(real \<Rightarrow> real \<Rightarrow> real) \<Rightarrow> plot_artist \<Rightarrow> real \<Rightarrow> error + timestamp option"
where
  "get_target_x_coord fmul a x_sel =
     (case current_x a of
        None \<Rightarrow> (case allowed_x a of [] \<Rightarrow> Inl IndexError | g # _ \<Rightarrow> Inr (Some g))
      | Some cx \<Rightarrow>
          (let x_ordered = sort_key (\<lambda>x. \<bar>x - x_pd fmul a x_sel\<bar>)
                             (filter (\<lambda>x. x > cx) (allowed_x a))
           in case x_ordered of [] \<Rightarrow> Inr None | t # _ \<Rightarrow> Inr (Some t)))"

section \<open>Recording a selection\<close>

text \<open>\<^verbatim>\<open>(t1 - t2).total_seconds() / 60\<close>: a time difference in fractional minutes.\<close>

definition minutes :: "timedelta \<Rightarrow> real" where
  "minutes d = real_of_int d / 1000000000 / 60"

text \<open>
  \<^verbatim>\<open>plot_selection\<close>, without the drawing. \<open>prev\<close> is the last recorded point, read
  before any point is appended. Python's float division raises ZeroDivisionError when
  \<open>delta\<close> is zero, that is when the snapped timestamp is the previous point's (with
  numpy floats the quotient would be infinite or NaN instead; no property below concerns
  that case).
\<close>

definition plot_selection :: "plot_artist \<Rightarrow> timestamp \<Rightarrow> real \<Rightarrow> error + plot_artist" where
  "plot_selection a x_snapped y =
     (let prev = (if points a = [] then None else Some (last (points a)));
          finish = (\<lambda>ps. Inr (a\<lparr>points := ps @ [(x_snapped, y)], current_x := Some x_snapped\<rparr>))
      in case (prev, current_x a) of
           (Some (prev_x, prev_y), Some cx) \<Rightarrow>
             if x_snapped > cx + period a then
               (let delta = minutes (x_snapped - prev_x) in
                if delta = 0 then Inl ZeroDivisionError
                else
                  (let slope = (y - prev_y) / delta in
                   case date_range_left (cx + period a) x_snapped (period a) of
                     Inl err \<Rightarrow> Inl err
                   | Inr xs \<Rightarrow>
                       finish (points a @
                         map (\<lambda>x_intermediate.
                                (x_intermediate,
                                 prev_y - slope * minutes (prev_x - x_intermediate))) xs)))
             else finish (points a)
         | _ \<Rightarrow> finish (points a))"

text \<open>
  \<^verbatim>\<open>add_points\<close>. The argument is what \<^verbatim>\<open>plt.ginput()\<close> returned: \<open>None\<close> for no
  click (a timeout), \<open>Some (x, y)\<close> for a click. The result is the new state and whether
  the capture loop goes on.
\<close>

definition add_points ::
  "(real \<Rightarrow> real \<Rightarrow> real) \<Rightarrow> plot_artist \<Rightarrow> (real \<times> real) option
     \<Rightarrow> error + (plot_artist \<times> bool)"
where
  "add_points fmul a xys =
     (case xys of
        None \<Rightarrow> Inr (a, False)
      | Some (x_sel, y) \<Rightarrow>
          (case get_target_x_coord fmul a x_sel of
             Inl err \<Rightarrow> Inl err
           | Inr None \<Rightarrow> Inr (a, True)
           | Inr (Some target_x) \<Rightarrow>
               (case plot_selection a target_x y of
                  Inl err \<Rightarrow> Inl err
                | Inr a' \<Rightarrow>
                    (if allowed_x a' = [] then Inl IndexError
                     else Inr (a', current_x a' \<noteq> Some (last (allowed_x a')))))))"

section \<open>Console input\<close>

text \<open>
  The console is the list of lines still to be read by \<^verbatim>\<open>input\<close>; reading from an
  empty list is the end of input (EOFError). Prompts are not modelled, printed
  messages are. Python's recursion limit is not modelled.

  \<^verbatim>\<open>_get_response\<close>: its recursive call goes through \<^verbatim>\<open>get_response\<close> without a
  condition, which is \<^verbatim>\<open>_get_response\<close> again.
\<close>

fun get_response_raw ::
  "string \<Rightarrow> bool \<Rightarrow> string list \<Rightarrow> message list \<Rightarrow> error + (string \<times> string list \<times> message list)"
where
  "get_response_raw dflt allow_empty [] ms = Inl EOFError"
| "get_response_raw dflt allow_empty (response # rest) ms =
     (if response \<noteq> [] then Inr (response, rest, ms)
      else if dflt \<noteq> [] then Inr (dflt, rest, ms)
      else if \<not> allow_empty then
        get_response_raw dflt allow_empty rest (ms @ [MustProvideResponse])
      else Inr ([], rest, ms))"

text \<open>
  \<^verbatim>\<open>get_response\<close>. A condition returns its verdict and what it printed. The
  recursion is on the lines left to read: each retry has read at least one line.
\<close>

function get_response ::
  "string \<Rightarrow> bool \<Rightarrow> (string \<Rightarrow> bool \<times> message list) option \<Rightarrow> string list \<Rightarrow> message list
     \<Rightarrow> error + (string \<times> string list \<times> message list)"
where
  "get_response dflt allow_empty condition inputs ms =
     (case get_response_raw dflt allow_empty inputs ms of
        Inl err \<Rightarrow> Inl err
      | Inr (initial_response, rest, ms') \<Rightarrow>
          (case condition of
             None \<Rightarrow> Inr (initial_response, rest, ms')
           | Some cond \<Rightarrow>
               (case cond initial_response of
                  (True, printed) \<Rightarrow> Inr (initial_response, rest, ms' @ printed)
                | (False, printed) \<Rightarrow>
                    get_response dflt allow_empty condition rest
                      (ms' @ printed @ [ConditionNotMet]))))"
  by pat_completeness auto
termination
proof (relation "measure (\<lambda>(d, ae, c, inputs, ms). length inputs)", goal_cases)
  case 1
  show ?case by simp
next
  case (2 dflt allow_empty condition inputs ms x2 initial_response y rest ms' cond x1 printed)
  have shorter: "get_response_raw d ae xs m = Inr (r, rs, m') \<Longrightarrow> length rs < length xs"
    for d ae xs m r rs m'
    by (induction xs arbitrary: m) (fastforce split: if_splits)+
  from 2 have "get_response_raw dflt allow_empty inputs ms = Inr (initial_response, rest, ms')"
    by simp
  then have "length rest < length inputs"
    by (rule shorter)
  then show ?case by simp
qed

declare get_response.simps [simp del]

section \<open>Finishing a series\<close>

text \<open>
  \<^verbatim>\<open>df[name] = values\<close> on a frame given by its index and its columns: a column of
  that name is overwritten where it stands, a new one is appended. pandas raises
  ValueError when the number of values is not the length of the index; on an empty
  index it takes a new index \<open>0, 1, ...\<close> from the values instead.
\<close>

definition upsert :: "string \<Rightarrow> 'v \<Rightarrow> (string \<times> 'v) list \<Rightarrow> (string \<times> 'v) list" where
  "upsert k v kvs =
     (if k \<in> set (map fst kvs) then map (\<lambda>(k', v'). if k' = k then (k', v) else (k', v')) kvs
      else kvs @ [(k, v)])"

definition df_set_column ::
  "cell list \<Rightarrow> (string \<times> cell list) list \<Rightarrow> string \<Rightarrow> cell list
     \<Rightarrow> error + (cell list \<times> (string \<times> cell list) list)"
where
  "df_set_column idx cols name vs =
     (if length vs = length idx then Inr (idx, upsert name vs cols)
      else if idx = [] then
        Inr (map (\<lambda>i. Num (real i)) [0 ..< length vs],
             upsert name vs (map (\<lambda>(k, c). (k, replicate (length vs) NaN)) cols))
      else Inl ValueError)"

text \<open>\<^verbatim>\<open>verify_points\<close>.\<close>

definition verify_points :: "plot_artist \<Rightarrow> bool" where
  "verify_points a =
     (if length (points a) \<noteq> length (allowed_x a) then False
      else list_all (\<lambda>p. fst p \<in> set (allowed_x a)) (points a))"

text \<open>\<^verbatim>\<open>finish_series\<close>.\<close>

definition finish_series :: "plot_artist \<Rightarrow> string \<Rightarrow> error + plot_artist" where
  "finish_series a name =
     (case df_set_column (df_index a) (df_columns a) name (map (\<lambda>p. Num (snd p)) (points a)) of
        Inl err \<Rightarrow> Inl err
      | Inr (idx, cols) \<Rightarrow>
          Inr (a\<lparr>df_index := idx, df_columns := cols, points := [], current_x := None\<rparr>))"

text \<open>
  The \<^verbatim>\<open>while True\<close> loop of \<^verbatim>\<open>draw_series\<close>, over the results of the successive
  \<^verbatim>\<open>plt.ginput()\<close> calls; when the list is used up, \<^verbatim>\<open>ginput\<close> times out and
  returns no click.
\<close>

fun capture_loop ::
  "(real \<Rightarrow> real \<Rightarrow> real) \<Rightarrow> plot_artist \<Rightarrow> (real \<times> real) option list \<Rightarrow> error + (plot_artist \<times> (real \<times> real) option list)"
where
  "capture_loop fmul a [] =
     (case add_points fmul a None of Inl err \<Rightarrow> Inl err | Inr (a', continue_loop) \<Rightarrow> Inr (a', []))"
| "capture_loop fmul a (xys # clicks) =
     (case add_points fmul a xys of
        Inl err \<Rightarrow> Inl err
      | Inr (a', continue_loop) \<Rightarrow>
          if continue_loop then capture_loop fmul a' clicks else Inr (a', clicks))"

text \<open>
  \<^verbatim>\<open>draw_series\<close>. \<^verbatim>\<open>sorted(list(set(points)), key=x)\<close> is \<open>remdups\<close> followed by a
  stable sort; the order Python's set gives to points of equal x is not modelled. The
  assertions of the loop (each new point is a Timestamp and a float) hold by typing. The
  legend is not modelled.
\<close>

definition draw_series ::
  "(real \<Rightarrow> real \<Rightarrow> real) \<Rightarrow> plot_artist \<Rightarrow> string list \<Rightarrow> (real \<times> real) option list
     \<Rightarrow> error + (plot_artist \<times> string list \<times> (real \<times> real) option list)"
where
  "draw_series fmul a inputs clicks =
     (case get_response [] False None inputs (out a) of
        Inl err \<Rightarrow> Inl err
      | Inr (name, inputs', ms) \<Rightarrow>
          (case capture_loop fmul (a\<lparr>out := ms\<rparr>) clicks of
             Inl err \<Rightarrow> Inl err
           | Inr (a1, clicks') \<Rightarrow>
               (let a2 = a1\<lparr>points := sort_key fst (remdups (points a1))\<rparr>;
                    valid = verify_points a2;
                    a3 = (if \<not> valid then a2\<lparr>out := out a2 @ [ReceivedInvalidPoints]\<rparr> else a2)
                in case finish_series a3 name of
                     Inl err \<Rightarrow> Inl err
                   | Inr a4 \<Rightarrow> Inr (a4, inputs', clicks'))))"

section \<open>pandas DataFrames for the reshaper\<close>

text \<open>
  The frames of the reshaper: the column names in order and the rows, each row one cell
  per column. The row index plays no part in the reshape (the result is written with
  \<^verbatim>\<open>index=False\<close>) and is not modelled. A column is looked up by the first position
  of its name; what pandas does when two columns share a name is not modelled.
\<close>

record dataframe =
  columns :: "string list"
  rows :: "cell list list"

fun index_of :: "string \<Rightarrow> string list \<Rightarrow> nat" where
  "index_of c [] = 0"
| "index_of c (x # xs) = (if x = c then 0 else Suc (index_of c xs))"

definition cell_of :: "string list \<Rightarrow> cell list \<Rightarrow> string \<Rightarrow> cell" where
  "cell_of cs r c = r ! index_of c cs"

text \<open>
  \<^verbatim>\<open>pd.melt(df, id_vars=[time_col], value_vars=..., var_name=..., value_name=...)\<close>:
  for each value column in turn, one row per row of the frame. pandas raises ValueError
  when \<open>value_name\<close> is already a column and KeyError when an id or value column is
  missing (pandas 2).
\<close>

definition melt :: "dataframe \<Rightarrow> string \<Rightarrow> string list \<Rightarrow> string \<Rightarrow> string \<Rightarrow> error + dataframe" where
  "melt df time_col value_vars var_name value_name =
     (if value_name \<in> set (columns df) then Inl ValueError
      else if \<not> set (time_col # value_vars) \<subseteq> set (columns df) then Inl KeyError
      else Inr \<lparr> columns = [time_col, var_name, value_name],
                 rows = concat (map (\<lambda>c. map (\<lambda>r. [cell_of (columns df) r time_col, Str c,
                                                      cell_of (columns df) r c]) (rows df))
                                    value_vars) \<rparr>)"

text \<open>
  \<^verbatim>\<open>df[col] = df[col].replace(to_replace=mapping)\<close>: every string cell of the column
  that is a key of the dict is replaced by its value, all keys at once.
\<close>

definition replace_cell :: "(string \<times> string) list \<Rightarrow> cell \<Rightarrow> cell" where
  "replace_cell mapping c =
     (case c of
        Str s \<Rightarrow> (case map_of mapping s of None \<Rightarrow> Str s | Some v \<Rightarrow> Str v)
      | _ \<Rightarrow> c)"

definition replace_column :: "dataframe \<Rightarrow> string \<Rightarrow> (string \<times> string) list \<Rightarrow> dataframe" where
  "replace_column df col mapping =
     df\<lparr>rows := map (\<lambda>r. r[index_of col (columns df) := replace_cell mapping (cell_of (columns df) r col)])
                   (rows df)\<rparr>"

text \<open>
  \<^verbatim>\<open>left.merge(right, on=keys, how="outer")\<close>. Every left row is joined with each right
  row of equal keys, or padded with NaN when there is none; the right rows whose keys no
  left row has follow, padded with NaN on the left columns. A column name (not a key)
  that both frames have gets the suffixes \<^verbatim>\<open>_x\<close> and \<^verbatim>\<open>_y\<close>. pandas orders the result
  of an outer join by its keys; the model keeps the order just described, since
  \<^verbatim>\<open>sort_values\<close> comes next in \<^verbatim>\<open>reshape\<close>.
\<close>

definition merge_outer :: "dataframe \<Rightarrow> dataframe \<Rightarrow> string list \<Rightarrow> error + dataframe" where
  "merge_outer left right keys =
     (if \<not> (set keys \<subseteq> set (columns left) \<and> set keys \<subseteq> set (columns right)) then Inl KeyError
      else
        (let lkey = (\<lambda>l. map (cell_of (columns left) l) keys);
             rkey = (\<lambda>r. map (cell_of (columns right) r) keys);
             left_rest = filter (\<lambda>c. c \<notin> set keys) (columns left);
             right_rest = filter (\<lambda>c. c \<notin> set keys) (columns right);
             right_part = (\<lambda>r. map (cell_of (columns right) r) right_rest);
             joined = concat (map (\<lambda>l.
                          (let matches = filter (\<lambda>r. rkey r = lkey l) (rows right)
                           in if matches = [] then [l @ replicate (length right_rest) NaN]
                              else map (\<lambda>r. l @ right_part r) matches))
                        (rows left));
             right_only = map (\<lambda>r. map (\<lambda>c. if c \<in> set keys then cell_of (columns right) r c else NaN)
                                       (columns left) @ right_part r)
                            (filter (\<lambda>r. \<not> list_ex (\<lambda>l. lkey l = rkey r) (rows left)) (rows right))
         in Inr \<lparr> columns =
                    map (\<lambda>c. if c \<notin> set keys \<and> c \<in> set right_rest then c @ ''_x'' else c) (columns left)
                    @ map (\<lambda>c. if c \<in> set left_rest then c @ ''_y'' else c) right_rest,
                  rows = joined @ right_only \<rparr>))"

text \<open>
  \<^verbatim>\<open>df.sort_values(by=col)\<close>. NaN cells go last. Cells of different kinds cannot be
  compared (TypeError). pandas' default sort is not stable; the model's is, so the order
  the model gives to rows of equal key is one of those pandas may give.
\<close>

fun cell_kind :: "cell \<Rightarrow> nat" where
  "cell_kind (Num _) = 0"
| "cell_kind (Str _) = 1"
| "cell_kind (Time _) = 2"
| "cell_kind NaN = 3"

fun cell_key :: "cell \<Rightarrow> nat \<times> real \<times> string" where
  "cell_key (Num x) = (0, x, [])"
| "cell_key (Str s) = (0, 0, s)"
| "cell_key (Time t) = (0, real_of_int t, [])"
| "cell_key NaN = (1, 0, [])"

definition comparable :: "cell list \<Rightarrow> bool" where
  "comparable cs \<longleftrightarrow>
     list_all (\<lambda>a. list_all (\<lambda>b. a = NaN \<or> b = NaN \<or> cell_kind a = cell_kind b) cs) cs"

definition sort_values :: "dataframe \<Rightarrow> string \<Rightarrow> error + dataframe" where
  "sort_values df by =
     (if by \<notin> set (columns df) then Inl KeyError
      else if \<not> comparable (map (\<lambda>r. cell_of (columns df) r by) (rows df)) then Inl TypeError
      else Inr (df\<lparr>rows := sort_key (\<lambda>r. cell_key (cell_of (columns df) r by)) (rows df)\<rparr>))"

text \<open>\<^verbatim>\<open>df[col] = value\<close> for a scalar: the column is overwritten where it stands or appended.\<close>

definition set_constant :: "dataframe \<Rightarrow> string \<Rightarrow> cell \<Rightarrow> dataframe" where
  "set_constant df col v =
     (if col \<in> set (columns df)
      then df\<lparr>rows := map (\<lambda>r. r[index_of col (columns df) := v]) (rows df)\<rparr>
      else \<lparr> columns = columns df @ [col], rows = map (\<lambda>r. r @ [v]) (rows df) \<rparr>)"

section \<open>The reshaper\<close>

text \<open>\<^verbatim>\<open>s.split(",")\<close> for a one-character separator.\<close>

fun split_on :: "char \<Rightarrow> string \<Rightarrow> string list" where
  "split_on sep [] = [[]]"
| "split_on sep (c # cs) =
     (if c = sep then [] # split_on sep cs
      else (case split_on sep cs of w # ws \<Rightarrow> (c # w) # ws | [] \<Rightarrow> [[c]]))"

text \<open>\<^verbatim>\<open>response.replace(" ", "").split(",")\<close>.\<close>

definition parse_columns :: "string \<Rightarrow> string list" where
  "parse_columns response = split_on CHR '','' (filter (\<lambda>c. c \<noteq> CHR '' '') response)"

text \<open>\<^verbatim>\<open>response_is_column\<close>, the condition of the column prompt, with what it prints.\<close>

definition response_is_column :: "dataframe \<Rightarrow> string \<Rightarrow> bool \<times> message list" where
  "response_is_column df response =
     (let cols = parse_columns response;
          missing_cols = filter (\<lambda>col. col \<notin> set (columns df)) cols
      in (missing_cols = [], if missing_cols \<noteq> [] then [ColumnsNotFound missing_cols] else []))"

text \<open>The loop that asks the identifier of each column and fills \<^verbatim>\<open>identifier_mapping\<close>.\<close>

fun read_identifiers ::
  "string list \<Rightarrow> (string \<times> string) list \<Rightarrow> string list \<Rightarrow> message list
     \<Rightarrow> error + ((string \<times> string) list \<times> string list \<times> message list)"
where
  "read_identifiers [] identifier_mapping inputs ms = Inr (identifier_mapping, inputs, ms)"
| "read_identifiers (unpivot_column # cs) identifier_mapping inputs ms =
     (case get_response [] False None inputs ms of
        Inl err \<Rightarrow> Inl err
      | Inr (mapped_identifier, inputs', ms') \<Rightarrow>
          read_identifiers cs (upsert unpivot_column mapped_identifier identifier_mapping) inputs' ms')"

text \<open>The body of the \<^verbatim>\<open>for i in range(num_sets)\<close> loop of \<^verbatim>\<open>reshape\<close>: one melted frame.\<close>

definition reshape_set ::
  "dataframe \<Rightarrow> string \<Rightarrow> string \<Rightarrow> string list \<Rightarrow> message list
     \<Rightarrow> error + (dataframe \<times> string list \<times> message list)"
where
  "reshape_set df time_col grouping_col inputs ms =
     (case get_response [] False None inputs ms of
        Inl err \<Rightarrow> Inl err
      | Inr (value_column_name, inputs1, ms1) \<Rightarrow>
          (case get_response [] False (Some (response_is_column df)) inputs1 ms1 of
             Inl err \<Rightarrow> Inl err
           | Inr (unpivot_columns_str, inputs2, ms2) \<Rightarrow>
               (let unpivot_columns = parse_columns unpivot_columns_str in
                case read_identifiers unpivot_columns [] inputs2 ms2 of
                  Inl err \<Rightarrow> Inl err
                | Inr (identifier_mapping, inputs3, ms3) \<Rightarrow>
                    (case melt df time_col unpivot_columns grouping_col value_column_name of
                       Inl err \<Rightarrow> Inl err
                     | Inr melted_set \<Rightarrow>
                         Inr (replace_column melted_set grouping_col identifier_mapping,
                              inputs3, ms3)))))"

fun reshape_sets ::
  "dataframe \<Rightarrow> string \<Rightarrow> string \<Rightarrow> nat \<Rightarrow> dataframe list \<Rightarrow> string list \<Rightarrow> message list
     \<Rightarrow> error + (dataframe list \<times> string list \<times> message list)"
where
  "reshape_sets df time_col grouping_col 0 melted_dfs inputs ms = Inr (melted_dfs, inputs, ms)"
| "reshape_sets df time_col grouping_col (Suc n) melted_dfs inputs ms =
     (case reshape_set df time_col grouping_col inputs ms of
        Inl err \<Rightarrow> Inl err
      | Inr (melted_set, inputs', ms') \<Rightarrow>
          reshape_sets df time_col grouping_col n (melted_dfs @ [melted_set]) inputs' ms')"

text \<open>The merge loop over \<^verbatim>\<open>melted_dfs[1:]\<close>.\<close>

fun merge_all :: "dataframe \<Rightarrow> dataframe list \<Rightarrow> string list \<Rightarrow> error + dataframe" where
  "merge_all final_melted_df [] keys = Inr final_melted_df"
| "merge_all final_melted_df (merge_df # dfs) keys =
     (case merge_outer final_melted_df merge_df keys of
        Inl err \<Rightarrow> Inl err
      | Inr merged \<Rightarrow> merge_all merged dfs keys)"

text \<open>
  \<^verbatim>\<open>reshape\<close>. \<^verbatim>\<open>melted_dfs[0]\<close> raises IndexError when there is no set. The
  constants are the items of the dict, in its order.
\<close>

definition reshape ::
  "dataframe \<Rightarrow> string \<Rightarrow> int \<Rightarrow> string \<Rightarrow> (string \<times> cell) list \<Rightarrow> string list \<Rightarrow> message list
     \<Rightarrow> error + (dataframe \<times> string list \<times> message list)"
where
  "reshape df time_col num_sets grouping_col constants inputs ms =
     (case reshape_sets df time_col grouping_col (nat num_sets) [] inputs ms of
        Inl err \<Rightarrow> Inl err
      | Inr (melted_dfs, inputs', ms') \<Rightarrow>
          (case melted_dfs of
             [] \<Rightarrow> Inl IndexError
           | first # others \<Rightarrow>
               (case merge_all first others [time_col, grouping_col] of
                  Inl err \<Rightarrow> Inl err
                | Inr final_melted_df \<Rightarrow>
                    (case sort_values final_melted_df time_col of
                       Inl err \<Rightarrow> Inl err
                     | Inr sorted_df \<Rightarrow>
                         Inr (foldl (\<lambda>d (constant_col, v). set_constant d constant_col v)
                                sorted_df constants,
                              inputs', ms')))))"

section \<open>The reshape as the specification words it\<close>

text \<open>
  A grouping spec, per measurement: the destination column name, the wide-table columns
  that hold the measurement, and the mapping from each of them to a group identifier.
  \<open>spec_table\<close> follows the specification: each group is melted and its column names
  replaced by their identifiers; the resulting tables are merged by full outer join on
  the time and grouping columns in group order (group 1 with group 2, the result with
  group 3, ...); the final table is sorted by the time column. \<open>spec_reshape\<close> then
  appends the constant columns last, each broadcast to every row. The melt, the join and
  the sort are the pandas operations modelled above. The specification gives no table
  for an empty list of groups; \<open>spec_table\<close> takes the error of the code there.
\<close>

type_synonym group_spec = "string \<times> string list \<times> (string \<times> string) list"

definition spec_melted :: "dataframe \<Rightarrow> string \<Rightarrow> string \<Rightarrow> group_spec \<Rightarrow> error + dataframe" where
  "spec_melted wide time_col grouping_col g =
     (case g of (dest, cols, mapping) \<Rightarrow>
        (case melt wide time_col cols grouping_col dest of
           Inl err \<Rightarrow> Inl err
         | Inr m \<Rightarrow> Inr (replace_column m grouping_col mapping)))"

fun first_error :: "(error + 'a) list \<Rightarrow> error + 'a list" where
  "first_error [] = Inr []"
| "first_error (x # xs) =
     (case x of
        Inl err \<Rightarrow> Inl err
      | Inr v \<Rightarrow> (case first_error xs of Inl err \<Rightarrow> Inl err | Inr vs \<Rightarrow> Inr (v # vs)))"

definition spec_table :: "dataframe \<Rightarrow> string \<Rightarrow> string \<Rightarrow> group_spec list \<Rightarrow> error + dataframe" where
  "spec_table wide time_col grouping_col groups =
     (case first_error (map (spec_melted wide time_col grouping_col) groups) of
        Inl err \<Rightarrow> Inl err
      | Inr [] \<Rightarrow> Inl IndexError
      | Inr (t # ts) \<Rightarrow>
          (case foldl (\<lambda>acc t'. case acc of Inl err \<Rightarrow> Inl err
                                 | Inr joined \<Rightarrow> merge_outer joined t' [time_col, grouping_col])
                  (Inr t) ts of
             Inl err \<Rightarrow> Inl err
           | Inr joined \<Rightarrow> sort_values joined time_col))"

definition spec_reshape ::
  "dataframe \<Rightarrow> string \<Rightarrow> string \<Rightarrow> group_spec list \<Rightarrow> (string \<times> cell) list \<Rightarrow> error + dataframe"
where
  "spec_reshape wide time_col grouping_col groups constants =
     (case spec_table wide time_col grouping_col groups of
        Inl err \<Rightarrow> Inl err
      | Inr t \<Rightarrow>
          Inr \<lparr> columns = columns t @ map fst constants,
                rows = map (\<lambda>r. r @ map snd constants) (rows t) \<rparr>)"

text \<open>
  What the user types for one measurement: the destination name, the comma-separated
  column names, and one identifier per column. \<open>wf_entry\<close>: the names are not empty,
  the columns exist in the wide table and are listed once each. \<open>responses\<close> is the
  console input of a whole run, \<open>group_of\<close> the grouping spec an entry denotes.
\<close>

type_synonym entry = "string \<times> string \<times> string list"

definition wf_entry :: "dataframe \<Rightarrow> entry \<Rightarrow> bool" where
  "wf_entry wide e =
     (case e of (dest, s, ids) \<Rightarrow>
        dest \<noteq> [] \<and> s \<noteq> [] \<and> list_all (\<lambda>c. c \<in> set (columns wide)) (parse_columns s)
        \<and> distinct (parse_columns s) \<and> length ids = length (parse_columns s)
        \<and> list_all (\<lambda>i. i \<noteq> []) ids)"

definition responses :: "entry list \<Rightarrow> string list" where
  "responses es = concat (map (\<lambda>(dest, s, ids). dest # s # ids) es)"

definition group_of :: "entry \<Rightarrow> group_spec" where
  "group_of e = (case e of (dest, s, ids) \<Rightarrow> (dest, parse_columns s, zip (parse_columns s) ids))"

section \<open>A sample session\<close>

text \<open>
  The grid 00:00, 00:05, 00:10, 00:15 of the epoch day (a period of five minutes over a
  range of twenty), in UTC, before any click.
\<close>

definition five_minutes :: timedelta where
  "five_minutes = 300000000000"

definition sample_artist :: plot_artist where
  "sample_artist =
     \<lparr> start = 0, end_ts = 4 * five_minutes, utc_offset = 0, period = five_minutes,
       allowed_x = [0, five_minutes, 2 * five_minutes, 3 * five_minutes],
       df_index = [Time 0, Time five_minutes, Time (2 * five_minutes), Time (3 * five_minutes)],
       df_columns = [], points = [], current_x = None, out = [] \<rparr>"

text \<open>A wide table of two rows: two voltages and a current.\<close>

definition sample_wide :: dataframe where
  "sample_wide =
     \<lparr> columns = [''timestamp'', ''v1'', ''v2'', ''i1''],
       rows = [[Time 0, Num 1, Num 10, Num 5],
               [Time five_minutes, Num 2, Num 20, Num 6]] \<rparr>"

text \<open>
  Two measurements typed for that table, a voltage of two columns and a current of one,
  and the long table they give before the constants.
\<close>

definition sample_entries :: "entry list" where
  "sample_entries = [(''voltage'', ''v1, v2'', [''A'', ''B'']), (''current'', ''i1'', [''A''])]"

definition sample_long :: dataframe where
  "sample_long =
     \<lparr> columns = [''timestamp'', ''sensor'', ''voltage'', ''current''],
       rows = [[Time 0, Str ''A'', Num 1, Num 5],
               [Time 0, Str ''B'', Num 10, NaN],
               [Time five_minutes, Str ''A'', Num 2, Num 6],
               [Time five_minutes, Str ''B'', Num 20, NaN]] \<rparr>"

text \<open>The same session after a first click at height 5, and after the whole grid is drawn.\<close>

definition sample_artist_started :: plot_artist where
  "sample_artist_started = sample_artist\<lparr>points := [(0, 5)], current_x := Some 0\<rparr>"

definition sample_artist_complete :: plot_artist where
  "sample_artist_complete =
     sample_artist\<lparr>points := [(0, 5), (five_minutes, 7), (2 * five_minutes, 9), (3 * five_minutes, 11)],
                    current_x := Some (3 * five_minutes)\<rparr>"

text \<open>
  The started session in a time zone five hours east of UTC, and the instant of a click
  (nanoseconds since the epoch) on the scale of the grid timestamps.
\<close>

definition sample_artist_east :: plot_artist where
  "sample_artist_east = sample_artist_started\<lparr>utc_offset := 18000 * one_second\<rparr>"

definition click_time :: "real \<Rightarrow> real" where
  "click_time x_sel = x_sel * 86400 * 1000000000"

section \<open>Well-formed states\<close>

text \<open>
  \<open>grid_ok\<close>: the grid is the one \<^verbatim>\<open>__init__\<close> builds from \<open>start\<close>, \<open>end\<close> and a
  positive \<open>period\<close> (none of the four fields is assigned again). \<open>steps s p i j\<close> is
  the arithmetic progression \<open>s + i p, ..., s + (j - 1) p\<close>, in which grids are
  expressed in the proofs.
\<close>

definition grid_ok :: "plot_artist \<Rightarrow> bool" where
  "grid_ok a \<longleftrightarrow> 0 < period a \<and> date_range (start a) (end_ts a - one_second) (period a) = Inr (allowed_x a)"

definition steps :: "timestamp \<Rightarrow> timedelta \<Rightarrow> nat \<Rightarrow> nat \<Rightarrow> timestamp list" where
  "steps s p i j = map (\<lambda>k. s + int k * p) [i ..< j]"

text \<open>
  \<open>capture_inv\<close>: the recorded points sit on the first grid timestamps, one point per
  timestamp and in grid order, and \<open>current_x\<close> is the timestamp of the last of them
  (unset when there is none).
\<close>

definition capture_inv :: "plot_artist \<Rightarrow> bool" where
  "capture_inv a \<longleftrightarrow>
     grid_ok a
     \<and> length (points a) \<le> length (allowed_x a)
     \<and> map fst (points a) = take (length (points a)) (allowed_x a)
     \<and> current_x a = (if points a = [] then None else Some (fst (last (points a))))"

section \<open>Arithmetic progressions and date ranges\<close>

lemma date_range_steps:
  "0 < p \<Longrightarrow> date_range s e p = Inr (steps s p 0 (if s \<le> e then nat ((e - s) div p) + 1 else 0))"
  by (simp add: date_range_def steps_def)

lemma steps_strict: "0 < p \<Longrightarrow> sorted_wrt (<) (steps s p i j)"
  unfolding steps_def by (simp add: sorted_wrt_map sorted_wrt_iff_nth_less)

lemma length_steps [simp]: "length (steps s p i j) = j - i"
  by (simp add: steps_def)

lemma nth_steps [simp]: "k < j - i \<Longrightarrow> steps s p i j ! k = s + int (i + k) * p"
  by (simp add: steps_def)

lemma steps_append: "i \<le> j \<Longrightarrow> j \<le> k \<Longrightarrow> steps s p i j @ steps s p j k = steps s p i k"
proof -
  assume "i \<le> j" "j \<le> k"
  then have "[i ..< k] = [i ..< j] @ [j ..< k]"
    using upt_add_eq_append[of i j "k - j"] by simp
  then show ?thesis by (simp add: steps_def)
qed

lemma steps_snoc: "i \<le> j \<Longrightarrow> steps s p i j @ [s + int j * p] = steps s p i (Suc j)"
  by (simp add: steps_def)

lemma take_steps: "take k (steps s p 0 n) = steps s p 0 (min k n)"
proof (cases "k \<le> n")
  case True
  then show ?thesis using take_upt[of 0 k n] by (simp add: steps_def take_map min_def)
next
  case False
  then show ?thesis by (simp add: steps_def min_def)
qed

lemma steps_shift: "steps (s + int i * p) p a b = steps s p (i + a) (i + b)"
  by (rule nth_equalityI) (simp_all add: steps_def algebra_simps)

lemma date_range_left_steps:
  assumes "0 < p"
  shows "date_range_left (c + p) (c + int (Suc m) * p) p = Inr (steps c p 1 (Suc m))"
proof -
  have d: "(c + int (Suc m) * p - (c + p)) div p = int m"
    using assms by (simp add: algebra_simps)
  have le: "c + p \<le> c + int (Suc m) * p"
    using assms by (simp add: algebra_simps)
  have dr: "date_range (c + p) (c + int (Suc m) * p) p = Inr (steps (c + p) p 0 (Suc m))"
  proof -
    have "nat ((c + int (Suc m) * p - (c + p)) div p) + 1 = Suc m"
      unfolding d by simp
    then show ?thesis using assms le by (simp only: date_range_steps if_True)
  qed
  have sh: "steps (c + p) p 0 k = steps c p 1 (Suc k)" for k
    using steps_shift[of c 1 p 0 k] by simp
  have l: "last (steps c p 1 (Suc (Suc m))) = c + int (Suc m) * p"
    by (simp add: steps_def)
  have b: "butlast (steps c p 1 (Suc (Suc m))) = steps c p 1 (Suc m)"
    by (simp add: steps_def map_butlast[symmetric])
  have ne: "steps c p 1 (Suc (Suc m)) \<noteq> []"
    by (simp add: steps_def)
  show ?thesis
    unfolding date_range_left_def dr sh using l b ne by simp
qed

lemma filter_steps_between:
  assumes "0 < p" "i < j" "j < n"
  shows "filter (\<lambda>t. s + int i * p < t \<and> t < s + int j * p) (steps s p 0 n) = steps s p (Suc i) j"
proof -
  have "filter (\<lambda>t. s + int i * p < t \<and> t < s + int j * p) (steps s p 0 n)
        = map (\<lambda>k. s + int k * p) (filter (\<lambda>k. i < k \<and> k < j) [0 ..< n])"
    using assms(1) by (simp add: steps_def filter_map o_def)
  also have "filter (\<lambda>k. i < k \<and> k < j) [0 ..< n] = [Suc i ..< j]"
  proof -
    have "sorted_wrt (<) (filter (\<lambda>k. i < k \<and> k < j) [0 ..< n])" by (simp add: sorted_wrt_filter)
    moreover have "sorted_wrt (<) [Suc i ..< j]" by simp
    moreover have "set (filter (\<lambda>k. i < k \<and> k < j) [0 ..< n]) = set [Suc i ..< j]"
      using assms by auto
    ultimately show ?thesis by (metis strict_sorted_equal)
  qed
  finally show ?thesis by (simp add: steps_def)
qed

lemma set_steps: "set (steps s p 0 n) = (\<lambda>k. s + int k * p) ` {..<n}"
  by (auto simp: steps_def)

lemma grid_ok_steps:
  assumes "grid_ok a"
  obtains n where "allowed_x a = steps (start a) (period a) 0 n"
  using assms date_range_steps[of "period a" "start a" "end_ts a - one_second"]
  by (auto simp: grid_ok_def)

lemma minutes_zero_iff: "minutes d = 0 \<longleftrightarrow> d = 0"
  by (simp add: minutes_def)

lemma ceil_div_pos:
  fixes d q :: int
  assumes "0 < q"
  shows "\<lceil>real_of_int d / real_of_int q\<rceil> = (d - 1) div q + 1"
proof -
  define k where "k = (d - 1) div q"
  have m: "d - 1 = q * k + (d - 1) mod q" by (simp add: k_def)
  have r: "0 \<le> (d - 1) mod q" "(d - 1) mod q < q" using assms by simp_all
  have lo: "q * k < d" using m r by linarith
  have hi: "d \<le> q * (k + 1)" using m r by (simp add: algebra_simps)
  have "real_of_int k < real_of_int d / real_of_int q"
    using lo assms by (simp add: pos_less_divide_eq mult.commute flip: of_int_mult)
  moreover have "real_of_int d / real_of_int q \<le> real_of_int (k + 1)"
  proof -
    have "real_of_int d \<le> real_of_int (q * (k + 1))" using hi by (simp only: of_int_le_iff)
    then show ?thesis using assms by (simp add: pos_divide_le_eq mult.commute)
  qed
  ultimately have "\<lceil>real_of_int d / real_of_int q\<rceil> = k + 1"
    by (intro ceiling_unique) simp_all
  then show ?thesis by (simp add: k_def)
qed

lemma div_scaled:
  fixes S d q :: int
  assumes "0 < S" "0 < q"
  shows "(S * d - 1) div (S * q) = (d - 1) div q"
proof -
  have "(S * d - 1) = (S - 1) + (d - 1) * S" by (simp add: algebra_simps)
  then have "(S * d - 1) div S = (S - 1) div S + (d - 1)"
    using assms(1) by (simp only: div_mult_self1)
  moreover have "(S - 1) div S = 0"
    using assms(1) by (simp add: div_pos_pos_trivial)
  ultimately have "(S * d - 1) div S = d - 1" by simp
  moreover have "(S * d - 1) div (S * q) = ((S * d - 1) div S) div q"
    using assms by (simp add: zdiv_zmult2_eq)
  ultimately show ?thesis by simp
qed

section \<open>Console responses\<close>

lemma get_response_plain:
  "r \<noteq> [] \<Longrightarrow> get_response [] False None (r # rest) ms = Inr (r, rest, ms)"
  by (subst get_response.simps) simp

lemma get_response_accept:
  "r \<noteq> [] \<Longrightarrow> cond r = (True, printed) \<Longrightarrow>
   get_response [] False (Some cond) (r # rest) ms = Inr (r, rest, ms @ printed)"
  by (subst get_response.simps) simp

lemma get_response_reject:
  "r \<noteq> [] \<Longrightarrow> cond r = (False, printed) \<Longrightarrow>
   get_response [] False (Some cond) (r # rest) ms =
     get_response [] False (Some cond) rest (ms @ printed @ [ConditionNotMet])"
  by (subst get_response.simps) simp

lemma get_response_condition_holds:
  "get_response dflt ae (Some cond) inputs ms = Inr (r, rest, ms') \<Longrightarrow> fst (cond r)"
proof (induction dflt ae "Some cond" inputs ms rule: get_response.induct)
  case (1 dflt ae inputs ms)
  show ?case
  proof (cases "get_response_raw dflt ae inputs ms")
    case (Inl e)
    with "1.prems" show ?thesis by (subst (asm) get_response.simps) simp
  next
    case (Inr x)
    obtain r0 rest0 ms0 where x: "x = (r0, rest0, ms0)" by (cases x)
    obtain ok printed where c: "cond r0 = (ok, printed)" by (cases "cond r0")
    show ?thesis
    proof (cases ok)
      case True
      with "1.prems" Inr x c have "r = r0" by (subst (asm) get_response.simps) simp
      with c True show ?thesis by simp
    next
      case False
      with "1.prems" Inr x c
      have "get_response dflt ae (Some cond) rest0 (ms0 @ printed @ [ConditionNotMet]) = Inr (r, rest, ms')"
        by (subst (asm) get_response.simps) simp
      then show ?thesis
        using "1.hyps"[OF Inr x[symmetric] refl refl c[symmetric]] False by simp
    qed
  qed
qed

section \<open>The time grid\<close>

text \<open>
  Claim C2, as the code has it. The grid stops at \<open>end - 1s\<close>, so its size is
  \<open>\<lceil>(end - start) / period\<rceil>\<close> when \<open>end - start\<close> and \<open>period\<close> are whole numbers of
  seconds; for every configuration with \<open>start < end\<close> and \<open>0 < period < end - start\<close> the
  grid is built and its timestamps are strictly increasing and pairwise distinct.
\<close>

theorem grid_cardinality:
  assumes "s < e" "0 < p" "p < e - s"
  shows "\<exists>a. init_artist s e off p = Inr a \<and> sorted_wrt (<) (allowed_x a) \<and> distinct (allowed_x a)
           \<and> (one_second dvd e - s \<and> one_second dvd p \<longrightarrow>
                int (length (allowed_x a)) = \<lceil>real_of_int (e - s) / real_of_int p\<rceil>)"
proof -
  define n where "n = (if s \<le> e - one_second then nat ((e - one_second - s) div p) + 1 else 0)"
  define a where "a = \<lparr> start = s, end_ts = e, utc_offset = off, period = p, allowed_x = steps s p 0 n,
                df_index = map Time (steps s p 0 n), df_columns = [], points = [], current_x = None,
                out = [] \<rparr>"
  have dr: "date_range s (e - one_second) p = Inr (steps s p 0 n)"
    using assms(2) by (simp add: date_range_steps n_def)
  have ia: "init_artist s e off p = Inr a"
    by (simp add: init_artist_def dr a_def)
  have st: "sorted_wrt (<) (allowed_x a)"
    using assms(2) by (simp add: a_def steps_strict)
  then have di: "distinct (allowed_x a)"
    by (simp add: strict_sorted_iff)
  have cnt: "int (length (allowed_x a)) = \<lceil>real_of_int (e - s) / real_of_int p\<rceil>"
    if "one_second dvd e - s" "one_second dvd p"
  proof -
    from that obtain d q where d: "e - s = one_second * d" and q: "p = one_second * q"
      by (auto simp: dvd_def)
    have pos: "0 < one_second" by (simp add: one_second_def)
    have "0 < one_second * q" using assms(2) q by simp
    then have qpos: "0 < q" using pos by (simp add: zero_less_mult_iff)
    have "0 < one_second * d" using assms(1) d by simp
    then have dpos: "0 < d" using pos by (simp add: zero_less_mult_iff)
    have "one_second * 1 \<le> one_second * d"
      using dpos pos by (intro mult_left_mono) simp_all
    then have le: "s \<le> e - one_second" using d by simp
    have "e - one_second - s = one_second * (d - 1)"
      using d by (simp add: algebra_simps)
    then have l: "(e - one_second - s) div p = (d - 1) div q"
      using q pos by simp
    have "0 \<le> (d - 1) div q"
      using dpos qpos by (simp add: pos_imp_zdiv_nonneg_iff)
    then have len: "int (length (allowed_x a)) = (d - 1) div q + 1"
      using le l by (simp add: a_def n_def)
    have "\<lceil>real_of_int (e - s) / real_of_int p\<rceil> = (e - s - 1) div p + 1"
      using assms(2) by (rule ceil_div_pos)
    also have "(e - s - 1) div p = (d - 1) div q"
      unfolding d q using pos qpos by (rule div_scaled)
    finally show ?thesis using len by simp
  qed
  show ?thesis using ia st di cnt by blast
qed

theorem grid_cardinality_witness:
  "(0::int) < 1200000000000 \<and> (0::int) < 300000000000 \<and> (300000000000::int) < 1200000000000 - 0
   \<and> (\<exists>a. init_artist 0 1200000000000 0 300000000000 = Inr a \<and> int (length (allowed_x a)) = 4)"
proof -
  have "\<lceil>real_of_int (1200000000000 - 0) / real_of_int 300000000000\<rceil> = (4::int)"
    by simp
  then show ?thesis
    using grid_cardinality [of 0 1200000000000 300000000000 0]
    by (auto simp: one_second_def)
qed

text \<open>
  With a period of 300 ms over two seconds the grid stops at one second: four timestamps,
  where \<open>\<lceil>(end - start) / period\<rceil>\<close> is seven.
\<close>

theorem grid_cardinality_subsecond:
  "(0::int) < 2000000000 \<and> (0::int) < 300000000 \<and> (300000000::int) < 2000000000 - 0
   \<and> init_artist 0 2000000000 0 300000000 =
        Inr \<lparr> start = 0, end_ts = 2000000000, utc_offset = 0, period = 300000000,
              allowed_x = [0, 300000000, 600000000, 900000000],
              df_index = [Time 0, Time 300000000, Time 600000000, Time 900000000],
              df_columns = [], points = [], current_x = None, out = [] \<rparr>
   \<and> int (length [0::int, 300000000, 600000000, 900000000])
        \<noteq> \<lceil>real_of_int (2000000000 - 0) / real_of_int 300000000\<rceil>"
proof -
  have "[0 ..< 4] = [0, 1, 2, Suc 2]" by (simp add: upt_rec)
  then have "init_artist 0 2000000000 0 300000000 =
        Inr \<lparr> start = 0, end_ts = 2000000000, utc_offset = 0, period = 300000000,
              allowed_x = [0, 300000000, 600000000, 900000000],
              df_index = [Time 0, Time 300000000, Time 600000000, Time 900000000],
              df_columns = [], points = [], current_x = None, out = [] \<rparr>"
    by (simp add: init_artist_def date_range_def one_second_def)
  moreover have "\<lceil>real_of_int (2000000000 - 0) / real_of_int 300000000\<rceil> = (7::int)"
    by (simp add: ceiling_unique)
  ultimately show ?thesis by simp
qed

section \<open>Snapping\<close>

text \<open>
  Claim C6. When no point has been placed for the current series (\<open>current_x\<close> is unset),
  \<open>get_target_x_coord\<close> returns the first grid timestamp, whatever the x-position of the
  click.
\<close>

theorem snap_first_point:
  "current_x a = None \<Longrightarrow> allowed_x a = g # gs \<Longrightarrow> get_target_x_coord fmul a x_sel = Inr (Some g)"
  by (simp add: get_target_x_coord_def)

theorem snap_first_point_witness:
  "current_x sample_artist = None
   \<and> allowed_x sample_artist = 0 # [five_minutes, 2 * five_minutes, 3 * five_minutes]
   \<and> get_target_x_coord exact_product sample_artist 19000.5 = Inr (Some 0)"
  using snap_first_point [of sample_artist 0 "[five_minutes, 2 * five_minutes, 3 * five_minutes]"
      exact_product "19000.5"]
  by (simp add: sample_artist_def)

lemma hd_sort_key_min:
  assumes "sort_key f xs = t # ts"
  shows "t \<in> set xs \<and> (\<forall>x\<in>set xs. f t \<le> f x)"
proof -
  have s: "sorted (map f (t # ts))" using assms sorted_sort_key[of f xs] by simp
  have st: "set (t # ts) = set xs" using assms set_sort[of f xs] by simp
  from s have "\<forall>x\<in>set ts. f t \<le> f x" by simp
  with st show ?thesis by auto
qed

text \<open>
  After the first point of a series (\<open>current_x\<close> is set): when some grid timestamp is
  greater than \<open>current_x\<close>, \<open>get_target_x_coord\<close> returns a grid timestamp strictly
  greater than \<open>current_x\<close> that is, among those, nearest to \<open>x_pd\<close>, the timestamp the
  source makes of the click; when none is, it returns none.
\<close>

lemma snap_future:
  assumes "current_x a = Some cx"
  shows "((\<exists>x\<in>set (allowed_x a). cx < x) \<longrightarrow>
            (\<exists>t. get_target_x_coord fmul a x_sel = Inr (Some t) \<and> t \<in> set (allowed_x a) \<and> cx < t
                 \<and> (\<forall>x\<in>set (allowed_x a). cx < x \<longrightarrow> \<bar>t - x_pd fmul a x_sel\<bar> \<le> \<bar>x - x_pd fmul a x_sel\<bar>)))
         \<and> ((\<forall>x\<in>set (allowed_x a). x \<le> cx) \<longrightarrow> get_target_x_coord fmul a x_sel = Inr None)"
proof (intro conjI impI)
  let ?f = "\<lambda>x. \<bar>x - x_pd fmul a x_sel\<bar>"
  let ?xs = "filter (\<lambda>x. x > cx) (allowed_x a)"
  assume "\<exists>x\<in>set (allowed_x a). cx < x"
  then have "?xs \<noteq> []" by (auto simp: filter_empty_conv)
  then have "sort_key ?f ?xs \<noteq> []" by (metis length_0_conv length_sort)
  then obtain t ts where ts: "sort_key ?f ?xs = t # ts" by (cases "sort_key ?f ?xs") auto
  from hd_sort_key_min[OF ts] have "t \<in> set ?xs" and "\<forall>x\<in>set ?xs. ?f t \<le> ?f x" by auto
  moreover have "get_target_x_coord fmul a x_sel = Inr (Some t)"
    using assms ts by (simp add: get_target_x_coord_def)
  ultimately show "\<exists>t. get_target_x_coord fmul a x_sel = Inr (Some t) \<and> t \<in> set (allowed_x a) \<and> cx < t
                 \<and> (\<forall>x\<in>set (allowed_x a). cx < x \<longrightarrow> \<bar>t - x_pd fmul a x_sel\<bar> \<le> \<bar>x - x_pd fmul a x_sel\<bar>)"
    by auto
next
  assume "\<forall>x\<in>set (allowed_x a). x \<le> cx"
  then have "filter (\<lambda>x. x > cx) (allowed_x a) = []" by (auto simp: filter_empty_conv)
  then show "get_target_x_coord fmul a x_sel = Inr None"
    using assms by (simp add: get_target_x_coord_def)
qed

text \<open>
  Claim C5, evaluated on the code. The timestamp that is snapped is not the click's. In
  a session five hours east of UTC, on the grid 00:00, 00:05, 00:10, 00:15 (UTC) with
  \<open>current_x\<close> at 00:00, a click at 00:14:03.75 UTC, nearest to the grid line 00:15, is
  read as a time five hours earlier and snaps to 00:05, the first grid line after
  \<open>current_x\<close>. In a UTC session, a click at 00:07:30.88, nearer to 00:10 than to
  00:05, is floored to 00:07:30, at equal distance from both, and snaps to 00:05. In both
  cases a grid timestamp greater than \<open>current_x\<close> is strictly nearer to the click than
  the one returned.
\<close>

theorem snap_not_nearest:
  "get_target_x_coord exact_product sample_artist_east (5 / 512) = Inr (Some five_minutes)
   \<and> 3 * five_minutes \<in> set (allowed_x sample_artist_east)
   \<and> current_x sample_artist_east = Some 0 \<and> 0 < 3 * five_minutes
   \<and> \<bar>real_of_int (3 * five_minutes) - click_time (5 / 512)\<bar>
       < \<bar>real_of_int five_minutes - click_time (5 / 512)\<bar>
   \<and> get_target_x_coord exact_product sample_artist_started (171 / 32768) = Inr (Some five_minutes)
   \<and> 2 * five_minutes \<in> set (allowed_x sample_artist_started)
   \<and> current_x sample_artist_started = Some 0 \<and> 0 < 2 * five_minutes
   \<and> \<bar>real_of_int (2 * five_minutes) - click_time (171 / 32768)\<bar>
       < \<bar>real_of_int five_minutes - click_time (171 / 32768)\<bar>"
  by (simp add: get_target_x_coord_def x_pd_def exact_product_def click_time_def
      sample_artist_east_def sample_artist_started_def sample_artist_def five_minutes_def
      one_second_def)

section \<open>Finishing a series\<close>

text \<open>
  Claim C4, evaluated on the code: a series of one click, ended by a timeout, on a grid of
  four timestamps fails validation, and the assignment of its single value to the
  four-row table raises ValueError; no column is committed.
\<close>

theorem draw_series_short_aborts:
  "draw_series exact_product sample_artist [''s1''] [Some (0, 1), None] = Inl ValueError"
  by (simp add: draw_series_def get_response_plain add_points_def get_target_x_coord_def
      plot_selection_def verify_points_def finish_series_def df_set_column_def sample_artist_def
      five_minutes_def)

section \<open>Interpolation\<close>

lemma steps_less_iff: "0 < p \<Longrightarrow> s + int i * p < s + int j * p \<longleftrightarrow> i < j"
  by simp

lemma in_steps: "t \<in> set (steps s p 0 n) \<Longrightarrow> \<exists>j<n. t = s + int j * p"
  by (auto simp: steps_def)

lemma plot_selection_near:
  assumes ne: "points a \<noteq> []" and l: "last (points a) = (px, py)"
    and c: "current_x a = Some cx" and le: "\<not> t > cx + period a"
  shows "plot_selection a t y = Inr (a\<lparr>points := points a @ [(t, y)], current_x := Some t\<rparr>)"
  unfolding plot_selection_def Let_def using ne l c le by simp

lemma plot_selection_far:
  assumes ne: "points a \<noteq> []" and l: "last (points a) = (px, py)"
    and c: "current_x a = Some cx" and gt: "t > cx + period a"
    and nz: "px \<noteq> t"
    and dr: "date_range_left (cx + period a) t (period a) = Inr xs"
  shows "plot_selection a t y =
           Inr (a\<lparr>points := points a
                    @ map (\<lambda>x. (x, py - (y - py) / minutes (t - px) * minutes (px - x))) xs
                    @ [(t, y)],
                  current_x := Some t\<rparr>)"
proof -
  have "minutes (t - px) \<noteq> 0" using nz by (simp add: minutes_zero_iff)
  then show ?thesis
    unfolding plot_selection_def Let_def using ne l c gt dr by simp
qed

lemma plot_selection_steps:
  assumes p: "0 < period a" and ne: "points a \<noteq> []" and l: "last (points a) = (px, py)"
    and c: "current_x a = Some cx" and cx: "cx = s + int i * period a"
    and t: "t = s + int j * period a" and ij: "i < j" and pt: "px \<noteq> t"
  shows "plot_selection a t y =
           Inr (a\<lparr>points := points a
                    @ map (\<lambda>x. (x, py - (y - py) / minutes (t - px) * minutes (px - x)))
                        (steps s (period a) (Suc i) j)
                    @ [(t, y)],
                  current_x := Some t\<rparr>)"
proof (cases "j = Suc i")
  case True
  have "t = cx + period a" unfolding cx t True by (simp add: algebra_simps)
  then have "\<not> t > cx + period a" by simp
  then have "plot_selection a t y = Inr (a\<lparr>points := points a @ [(t, y)], current_x := Some t\<rparr>)"
    using ne l c by (intro plot_selection_near)
  moreover have "steps s (period a) (Suc i) j = []" unfolding True by (simp add: steps_def)
  ultimately show ?thesis by simp
next
  case False
  with ij have "Suc (Suc i) \<le> j" by simp
  then obtain m where m: "j = i + Suc (Suc m)"
    by (metis add_Suc_right add_Suc_shift le_Suc_ex)
  have tm: "t = cx + int (Suc (Suc m)) * period a"
    unfolding t cx m by (simp add: algebra_simps)
  have "0 < int (Suc m) * period a" using p by simp
  then have gt: "cx + period a < t"
    unfolding tm by (simp add: algebra_simps)
  have "date_range_left (cx + period a) t (period a) = Inr (steps cx (period a) 1 (Suc (Suc m)))"
    unfolding tm using p by (rule date_range_left_steps)
  also have "steps cx (period a) 1 (Suc (Suc m)) = steps s (period a) (Suc i) j"
    unfolding cx m using steps_shift[of s i "period a" 1 "Suc (Suc m)"] by simp
  finally have dr: "date_range_left (cx + period a) t (period a) = Inr (steps s (period a) (Suc i) j)" .
  show ?thesis
    using ne l c gt pt dr by (rule plot_selection_far)
qed

lemma snap_some:
  assumes "current_x a = Some cx" "get_target_x_coord fmul a x_sel = Inr (Some t)"
  shows "t \<in> set (allowed_x a) \<and> cx < t"
proof -
  let ?f = "\<lambda>x. \<bar>x - x_pd fmul a x_sel\<bar>"
  let ?xs = "filter (\<lambda>x. x > cx) (allowed_x a)"
  from assms obtain ts where "sort_key ?f ?xs = t # ts"
    by (auto simp: get_target_x_coord_def split: list.splits)
  then have "t \<in> set (sort_key ?f ?xs)" by simp
  then show ?thesis by simp
qed

text \<open>
  Claim C1. In a series in progress whose last recorded point is \<open>(px, py)\<close>, with the
  target more than one period past \<open>current_x\<close> (both on the grid), \<open>plot_selection\<close>
  appends, for each grid timestamp \<open>t\<close> strictly between \<open>current_x\<close> and the target, the
  point \<open>(t, py - slope * (px - t))\<close> with \<open>slope = (y - py) / (target - px)\<close> in minutes,
  then the target point. In particular from \<open>(cx, 5)\<close> to \<open>(cx + 3 P, 11)\<close> the two
  intermediate values are 7 and 9.
\<close>

theorem interpolation:
  assumes "grid_ok a" "points a \<noteq> []" "last (points a) = (px, py)" "current_x a = Some cx"
    "cx \<in> set (allowed_x a)" "target \<in> set (allowed_x a)" "cx + period a < target" "px \<noteq> target"
  shows "plot_selection a target y =
           Inr (a\<lparr>points := points a
                    @ map (\<lambda>t. (t, py - (y - py) / minutes (target - px) * minutes (px - t)))
                        (filter (\<lambda>t. cx < t \<and> t < target) (allowed_x a))
                    @ [(target, y)],
                  current_x := Some target\<rparr>)
         \<and> (px = cx \<and> py = 5 \<and> y = 11 \<and> target = cx + 3 * period a \<longrightarrow>
              plot_selection a target y =
                Inr (a\<lparr>points := points a
                         @ [(cx + period a, 7), (cx + 2 * period a, 9), (target, 11)],
                       current_x := Some target\<rparr>))"
proof -
  from assms(1) have p: "0 < period a" by (simp add: grid_ok_def)
  from assms(1) obtain n where g: "allowed_x a = steps (start a) (period a) 0 n"
    by (rule grid_ok_steps)
  from assms(5) have "\<exists>i<n. cx = start a + int i * period a"
    unfolding g by (rule in_steps)
  then obtain i where i: "i < n" "cx = start a + int i * period a" by blast
  from assms(6) have "\<exists>j<n. target = start a + int j * period a"
    unfolding g by (rule in_steps)
  then obtain j where j: "j < n" "target = start a + int j * period a" by blast
  have "cx < target" using assms(7) p by simp
  then have ij: "i < j" using i(2) j(2) p by simp
  have f: "filter (\<lambda>t. cx < t \<and> t < target) (allowed_x a) = steps (start a) (period a) (Suc i) j"
    unfolding g i(2) j(2) using p ij j(1) by (rule filter_steps_between)
  have main: "plot_selection a target y =
           Inr (a\<lparr>points := points a
                    @ map (\<lambda>t. (t, py - (y - py) / minutes (target - px) * minutes (px - t)))
                        (filter (\<lambda>t. cx < t \<and> t < target) (allowed_x a))
                    @ [(target, y)],
                  current_x := Some target\<rparr>)"
    unfolding f using p assms(2,3,4) i(2) j(2) ij assms(8) by (rule plot_selection_steps)
  have inst: "plot_selection a target y =
                Inr (a\<lparr>points := points a
                         @ [(cx + period a, 7), (cx + 2 * period a, 9), (target, 11)],
                       current_x := Some target\<rparr>)"
    if h: "px = cx" "py = 5" "y = 11" "target = cx + 3 * period a"
  proof -
    have "start a + int j * period a = start a + int (i + 3) * period a"
      using h(4) i(2) j(2) by (simp add: algebra_simps)
    then have j3: "j = i + 3" using p by simp
    have "j = Suc (Suc (Suc i))" using j3 by simp
    then have "[Suc i ..< j] = [Suc i, Suc (Suc i)]" by simp
    then have s: "steps (start a) (period a) (Suc i) j = [cx + period a, cx + 2 * period a]"
      unfolding i(2) by (simp add: steps_def algebra_simps)
    have mz: "minutes (period a) \<noteq> 0" using p by (simp add: minutes_zero_iff)
    have m3: "minutes (3 * period a) = 3 * minutes (period a)" by (simp add: minutes_def)
    have m1: "minutes (- period a) = - minutes (period a)" by (simp add: minutes_def)
    have m2: "minutes (- (2 * period a)) = - (2 * minutes (period a))" by (simp add: minutes_def)
    have v1: "5 - (11 - 5) / minutes (target - cx) * minutes (cx - (cx + period a)) = (7::real)"
      using mz by (simp add: h(4) m3 m1)
    have v2: "5 - (11 - 5) / minutes (target - cx) * minutes (cx - (cx + 2 * period a)) = (9::real)"
      using mz by (simp add: h(4) m3 m2)
    show ?thesis
      using main unfolding f s h(1,2,3) by (simp only: list.map v1 v2 append.simps)
  qed
  show ?thesis using main inst by blast
qed

lemma sample_grid_ok: "grid_ok sample_artist_started"
proof -
  have "[0 ..< 4] = [0, 1, 2, Suc 2]" by (simp add: upt_rec)
  then show ?thesis
    by (simp add: grid_ok_def sample_artist_started_def sample_artist_def date_range_def
        five_minutes_def one_second_def)
qed

theorem interpolation_witness:
  "grid_ok sample_artist_started
   \<and> points sample_artist_started \<noteq> []
   \<and> last (points sample_artist_started) = (0, 5)
   \<and> current_x sample_artist_started = Some 0
   \<and> 0 \<in> set (allowed_x sample_artist_started)
   \<and> 3 * five_minutes \<in> set (allowed_x sample_artist_started)
   \<and> 0 + period sample_artist_started < 3 * five_minutes
   \<and> (0::int) \<noteq> 3 * five_minutes
   \<and> plot_selection sample_artist_started (3 * five_minutes) 11 =
        Inr (sample_artist_started
              \<lparr>points := [(0, 5), (five_minutes, 7), (2 * five_minutes, 9), (3 * five_minutes, 11)],
               current_x := Some (3 * five_minutes)\<rparr>)"
proof -
  note g = sample_grid_ok
  have h: "points sample_artist_started \<noteq> []"
    "last (points sample_artist_started) = (0, 5)"
    "current_x sample_artist_started = Some 0"
    "0 \<in> set (allowed_x sample_artist_started)"
    "3 * five_minutes \<in> set (allowed_x sample_artist_started)"
    "0 + period sample_artist_started < 3 * five_minutes"
    "(0::int) \<noteq> 3 * five_minutes"
    by (simp_all add: sample_artist_started_def sample_artist_def five_minutes_def)
  have per: "period sample_artist_started = five_minutes"
    and pts: "points sample_artist_started = [(0, 5)]"
    by (simp_all add: sample_artist_started_def sample_artist_def)
  have "(0::int) = 0 \<and> (5::real) = 5 \<and> (11::real) = 11
          \<and> 3 * five_minutes = 0 + 3 * period sample_artist_started \<longrightarrow>
        plot_selection sample_artist_started (3 * five_minutes) 11 =
        Inr (sample_artist_started
              \<lparr>points := points sample_artist_started
                         @ [(0 + period sample_artist_started, 7),
                            (0 + 2 * period sample_artist_started, 9), (3 * five_minutes, 11)],
               current_x := Some (3 * five_minutes)\<rparr>)"
    by (rule conjunct2 [OF interpolation [OF g h, of 11]])
  then have "plot_selection sample_artist_started (3 * five_minutes) 11 =
        Inr (sample_artist_started
              \<lparr>points := [(0, 5), (five_minutes, 7), (2 * five_minutes, 9), (3 * five_minutes, 11)],
               current_x := Some (3 * five_minutes)\<rparr>)"
    by (simp add: per pts)
  then show ?thesis
    using g h by blast
qed

section \<open>The capture invariant\<close>

lemma plot_selection_first:
  "points a = [] \<Longrightarrow>
   plot_selection a t y = Inr (a\<lparr>points := [(t, y)], current_x := Some t\<rparr>)"
  by (simp add: plot_selection_def)

lemma capture_inv_update:
  assumes g: "grid_ok a" and n: "allowed_x a = steps s p 0 n"
    and m: "map fst ps = steps s p 0 m" and mn: "m \<le> n" and ne: "ps \<noteq> []"
    and t: "fst (last ps) = t"
  shows "capture_inv (a\<lparr>points := ps, current_x := Some t\<rparr>)"
proof -
  have "length ps = m" using m by (metis length_map length_steps diff_zero)
  moreover have "take m (steps s p 0 n) = steps s p 0 m"
    using mn by (simp add: take_steps min_def)
  ultimately show ?thesis
    using g n m mn ne t by (simp add: capture_inv_def grid_ok_def)
qed

lemma selection_step:
  assumes inv: "capture_inv a" and snap: "get_target_x_coord fmul a x_sel = Inr (Some t)"
  shows "\<exists>a'. plot_selection a t y = Inr a' \<and> capture_inv a' \<and> current_x a' = Some t
              \<and> sorted_wrt (<) (map fst (points a')) \<and> distinct (map fst (points a'))"
proof -
  from inv have g: "grid_ok a" by (simp add: capture_inv_def)
  then have p: "0 < period a" by (simp add: grid_ok_def)
  from g obtain n where n: "allowed_x a = steps (start a) (period a) 0 n"
    by (rule grid_ok_steps)
  define k where "k = length (points a)"
  have kn: "k \<le> n" using inv n by (simp add: capture_inv_def k_def)
  have mf: "map fst (points a) = steps (start a) (period a) 0 k"
    using inv n kn by (simp add: capture_inv_def k_def take_steps min_def)
  have cur: "current_x a = (if points a = [] then None else Some (fst (last (points a))))"
    using inv by (simp add: capture_inv_def)
  have key: "\<exists>ps m. plot_selection a t y = Inr (a\<lparr>points := ps, current_x := Some t\<rparr>)
               \<and> map fst ps = steps (start a) (period a) 0 m \<and> m \<le> n \<and> ps \<noteq> []
               \<and> fst (last ps) = t"
  proof (cases "points a = []")
    case True
    with cur have "current_x a = None" by simp
    with snap obtain gs where "allowed_x a = t # gs"
      by (auto simp: get_target_x_coord_def split: list.splits)
    with n have st: "steps (start a) (period a) 0 n = t # gs" by simp
    then have "0 < n" by (cases n) (simp_all add: steps_def)
    then have "steps (start a) (period a) 0 n ! 0 = start a" by simp
    with st have "t = start a" by simp
    then have "map fst [(t, y)] = steps (start a) (period a) 0 1"
      by (simp add: steps_def)
    moreover have "1 \<le> n" using \<open>0 < n\<close> by simp
    ultimately show ?thesis
      using plot_selection_first[OF True, of t y] by (intro exI[of _ "[(t, y)]"] exI[of _ 1]) simp
  next
    case False
    then have kpos: "0 < k" by (simp add: k_def)
    obtain px py where l: "last (points a) = (px, py)" by (cases "last (points a)")
    with cur False have c: "current_x a = Some px" by simp
    have "px = last (map fst (points a))" using False l by (simp add: last_map)
    also have "\<dots> = steps (start a) (period a) 0 k ! (k - 1)"
      unfolding mf using kpos by (simp add: last_conv_nth steps_def)
    also have "\<dots> = start a + int (k - 1) * period a"
      using kpos by simp
    finally have px: "px = start a + int (k - 1) * period a" .
    from snap_some[OF c snap] have tin: "t \<in> set (allowed_x a)" and lt: "px < t" by simp_all
    from tin have "\<exists>j<n. t = start a + int j * period a"
      unfolding n by (rule in_steps)
    then obtain j where j: "j < n" "t = start a + int j * period a" by blast
    have kj: "k - 1 < j" using lt p unfolding px j(2) by simp
    then have kj': "k \<le> j" by simp
    have ne: "px \<noteq> t" using lt by simp
    let ?mid = "map (\<lambda>x. (x, py - (y - py) / minutes (t - px) * minutes (px - x)))
                        (steps (start a) (period a) (Suc (k - 1)) j)"
    let ?ps = "points a @ ?mid @ [(t, y)]"
    have ps: "plot_selection a t y = Inr (a\<lparr>points := ?ps, current_x := Some t\<rparr>)"
      using p False l c px j(2) kj ne by (rule plot_selection_steps)
    have "map fst ?mid = steps (start a) (period a) k j"
      using kpos by (simp add: o_def)
    then have "map fst ?ps = steps (start a) (period a) 0 k @ steps (start a) (period a) k j @ [t]"
      using mf by simp
    also have "\<dots> = steps (start a) (period a) 0 j @ [start a + int j * period a]"
      using kj' j(2) by (simp add: steps_append flip: append_assoc)
    also have "\<dots> = steps (start a) (period a) 0 (Suc j)"
      by (simp add: steps_snoc)
    finally have "map fst ?ps = steps (start a) (period a) 0 (Suc j)" .
    moreover have "Suc j \<le> n" using j(1) by simp
    ultimately show ?thesis
      using ps by (intro exI[of _ ?ps] exI[of _ "Suc j"]) simp
  qed
  then obtain ps m where r: "plot_selection a t y = Inr (a\<lparr>points := ps, current_x := Some t\<rparr>)"
    and m: "map fst ps = steps (start a) (period a) 0 m" and mn: "m \<le> n" and ne: "ps \<noteq> []"
    and lst: "fst (last ps) = t"
    by blast
  have "capture_inv (a\<lparr>points := ps, current_x := Some t\<rparr>)"
    using g n m mn ne lst by (rule capture_inv_update)
  moreover have "sorted_wrt (<) (map fst ps)"
    unfolding m using p by (rule steps_strict)
  moreover from this have "distinct (map fst ps)"
    by (simp add: strict_sorted_iff)
  ultimately show ?thesis using r by simp
qed

text \<open>
  Claim C10. A selection made at the timestamp that \<open>get_target_x_coord\<close> returned
  succeeds and keeps the invariant of a series capture: afterwards the recorded points
  still have strictly increasing, pairwise distinct timestamps, which are the first
  grid timestamps in grid order, one point each, up to the new \<open>current_x\<close>.
\<close>

theorem selection_keeps_invariant:
  assumes inv: "capture_inv a" and snap: "get_target_x_coord fmul a x_sel = Inr (Some t)"
  shows "\<exists>a'. plot_selection a t y = Inr a' \<and> capture_inv a' \<and> current_x a' = Some t
              \<and> sorted_wrt (<) (map fst (points a')) \<and> distinct (map fst (points a'))"
  using selection_step [OF assms] .

theorem selection_keeps_invariant_witness:
  "capture_inv sample_artist_started
   \<and> get_target_x_coord exact_product sample_artist_started (1 / 128) = Inr (Some (2 * five_minutes))
   \<and> (\<exists>a'. plot_selection sample_artist_started (2 * five_minutes) 9 = Inr a' \<and> capture_inv a'
             \<and> current_x a' = Some (2 * five_minutes)
             \<and> sorted_wrt (<) (map fst (points a')) \<and> distinct (map fst (points a')))"
proof -
  have i: "capture_inv sample_artist_started"
    using sample_grid_ok
    by (simp add: capture_inv_def) (simp add: sample_artist_started_def sample_artist_def)
  have s: "get_target_x_coord exact_product sample_artist_started (1 / 128) = Inr (Some (2 * five_minutes))"
    by (simp add: sample_artist_started_def sample_artist_def five_minutes_def
        get_target_x_coord_def x_pd_def exact_product_def one_second_def)
  show ?thesis
    using i s selection_keeps_invariant [OF i s, of 9] by blast
qed

section \<open>Adding a point\<close>





text \<open>
  Outside a capture: called directly on a series that already covers the grid,
  \<open>get_target_x_coord\<close> returns none and \<open>add_points\<close> returns true, leaving the state
  as it was. The capture loop never makes this call: it stops as soon as \<open>current_x\<close> is
  the last grid timestamp.
\<close>

lemma add_points_after_last:
  "get_target_x_coord exact_product sample_artist_complete (1 / 128) = Inr None
   \<and> add_points exact_product sample_artist_complete (Some (1 / 128, 3)) = Inr (sample_artist_complete, True)"
  by (simp add: add_points_def get_target_x_coord_def sample_artist_complete_def
      sample_artist_def five_minutes_def)


section \<open>Reshape: missing columns\<close>

lemma response_is_column_iff:
  "fst (response_is_column df r) \<longleftrightarrow> set (parse_columns r) \<subseteq> set (columns df)"
  by (auto simp: response_is_column_def Let_def filter_empty_conv)

text \<open>
  Claim C8, as the code has it. A response to a group's column prompt that names a column
  absent from the wide table is reported (the missing columns, then that the response
  did not meet the conditions) and dropped, and the prompt is repeated: the group is
  melted from a later response, before which no merge has run. Every response the prompt
  accepts names columns of the wide table only.
\<close>

theorem missing_column_rejected:
  assumes "v \<noteq> []" "r \<noteq> []" "\<not> set (parse_columns r) \<subseteq> set (columns df)"
  shows "reshape_set df tc gc (v # r # rest) ms =
           reshape_set df tc gc (v # rest)
             (ms @ [ColumnsNotFound (filter (\<lambda>c. c \<notin> set (columns df)) (parse_columns r)),
                    ConditionNotMet])
         \<and> (\<forall>inputs ms0 resp rest' ms'.
               get_response [] False (Some (response_is_column df)) inputs ms0 = Inr (resp, rest', ms')
               \<longrightarrow> set (parse_columns resp) \<subseteq> set (columns df))"
proof
  let ?missing = "filter (\<lambda>c. c \<notin> set (columns df)) (parse_columns r)"
  have "?missing \<noteq> []" using assms(3) by (auto simp: filter_empty_conv)
  then have c: "response_is_column df r = (False, [ColumnsNotFound ?missing])"
    by (simp add: response_is_column_def Let_def)
  have "get_response [] False (Some (response_is_column df)) (r # rest) ms =
        get_response [] False (Some (response_is_column df)) rest
          (ms @ [ColumnsNotFound ?missing] @ [ConditionNotMet])"
    using assms(2) c by (rule get_response_reject)
  then show "reshape_set df tc gc (v # r # rest) ms =
           reshape_set df tc gc (v # rest) (ms @ [ColumnsNotFound ?missing, ConditionNotMet])"
    using assms(1) by (simp add: reshape_set_def get_response_plain)
next
  show "\<forall>inputs ms0 resp rest' ms'.
               get_response [] False (Some (response_is_column df)) inputs ms0 = Inr (resp, rest', ms')
               \<longrightarrow> set (parse_columns resp) \<subseteq> set (columns df)"
    using get_response_condition_holds response_is_column_iff by blast
qed

lemma parse_zz: "parse_columns ''zz'' = [''zz'']" "parse_columns ''i1'' = [''i1'']"
  "parse_columns ''v1'' = [''v1'']"
  by (simp_all add: parse_columns_def)

theorem missing_column_rejected_witness:
  "''current'' \<noteq> [] \<and> ''zz'' \<noteq> [] \<and> \<not> set (parse_columns ''zz'') \<subseteq> set (columns sample_wide)
   \<and> reshape_set sample_wide ''timestamp'' ''sensor'' [''current'', ''zz'', ''i1'', ''A''] [] =
       reshape_set sample_wide ''timestamp'' ''sensor'' [''current'', ''i1'', ''A'']
         [ColumnsNotFound [''zz''], ConditionNotMet]
   \<and> get_response [] False (Some (response_is_column sample_wide)) [''i1''] [] = Inr (''i1'', [], [])
   \<and> set (parse_columns ''i1'') \<subseteq> set (columns sample_wide)"
proof -
  have h: "''current'' \<noteq> []" "''zz'' \<noteq> []"
    "\<not> set (parse_columns ''zz'') \<subseteq> set (columns sample_wide)"
    by (simp_all add: parse_columns_def sample_wide_def)
  have g: "get_response [] False (Some (response_is_column sample_wide)) [''i1''] [] = Inr (''i1'', [], [])"
    by (subst get_response.simps)
       (simp add: response_is_column_def parse_columns_def sample_wide_def)
  have f: "filter (\<lambda>c. c \<notin> set (columns sample_wide)) (parse_columns ''zz'') = [''zz'']"
    by (simp add: parse_columns_def sample_wide_def)
  have p: "set (parse_columns ''i1'') \<subseteq> set (columns sample_wide)"
    by (simp add: parse_columns_def sample_wide_def)
  have "reshape_set sample_wide ''timestamp'' ''sensor'' [''current'', ''zz'', ''i1'', ''A''] [] =
       reshape_set sample_wide ''timestamp'' ''sensor'' [''current'', ''i1'', ''A'']
         [ColumnsNotFound [''zz''], ConditionNotMet]"
    using conjunct1 [OF missing_column_rejected [OF h, of "''timestamp''" "''sensor''" "[''i1'', ''A'']" "[]"]]
    unfolding f by simp
  then show ?thesis
    using h g p by blast
qed

text \<open>
  With two measurements, a missing column named for the second one is reported when the
  first measurement has already been melted: after one turn of the loop \<open>melted_dfs\<close>
  holds the first melted table and the response \<open>zz\<close> is still to be read; it is
  rejected in the second turn.
\<close>

theorem missing_column_after_first_melt:
  "reshape_sets sample_wide ''timestamp'' ''sensor'' (Suc 0) []
       [''voltage'', ''v1'', ''A'', ''current'', ''zz'', ''i1'', ''A''] [] =
     Inr ([\<lparr> columns = [''timestamp'', ''sensor'', ''voltage''],
              rows = [[Time 0, Str ''A'', Num 1], [Time five_minutes, Str ''A'', Num 2]] \<rparr>],
          [''current'', ''zz'', ''i1'', ''A''], [])
   \<and> reshape_set sample_wide ''timestamp'' ''sensor'' [''current'', ''zz'', ''i1'', ''A''] [] =
     Inr (\<lparr> columns = [''timestamp'', ''sensor'', ''current''],
             rows = [[Time 0, Str ''A'', Num 5], [Time five_minutes, Str ''A'', Num 6]] \<rparr>,
          [], [ColumnsNotFound [''zz''], ConditionNotMet])"
proof -
  have ok: "response_is_column sample_wide ''v1'' = (True, [])"
    "response_is_column sample_wide ''i1'' = (True, [])"
    "response_is_column sample_wide ''zz'' = (False, [ColumnsNotFound [''zz'']])"
    by (simp_all add: response_is_column_def parse_columns_def sample_wide_def)
  have g1: "get_response [] False (Some (response_is_column sample_wide))
             [''v1'', ''A'', ''current'', ''zz'', ''i1'', ''A''] [] =
            Inr (''v1'', [''A'', ''current'', ''zz'', ''i1'', ''A''], [])"
    using get_response_accept[of "''v1''" "response_is_column sample_wide" "[]"] ok(1) by simp
  have g2: "get_response [] False (Some (response_is_column sample_wide)) [''zz'', ''i1'', ''A''] [] =
            Inr (''i1'', [''A''], [ColumnsNotFound [''zz''], ConditionNotMet])"
    using get_response_reject[of "''zz''" "response_is_column sample_wide" "[ColumnsNotFound [''zz'']]" "[''i1'', ''A'']" "[]"]
      get_response_accept[of "''i1''" "response_is_column sample_wide" "[]" "[''A'']" "[ColumnsNotFound [''zz''], ConditionNotMet]"]
      ok by simp
  have s1: "reshape_set sample_wide ''timestamp'' ''sensor''
              [''voltage'', ''v1'', ''A'', ''current'', ''zz'', ''i1'', ''A''] [] =
            Inr (\<lparr> columns = [''timestamp'', ''sensor'', ''voltage''],
                    rows = [[Time 0, Str ''A'', Num 1], [Time five_minutes, Str ''A'', Num 2]] \<rparr>,
                 [''current'', ''zz'', ''i1'', ''A''], [])"
    by (simp add: reshape_set_def get_response_plain g1 parse_zz)
       (simp add: melt_def replace_column_def replace_cell_def cell_of_def upsert_def sample_wide_def)
  have s2: "reshape_set sample_wide ''timestamp'' ''sensor'' [''current'', ''zz'', ''i1'', ''A''] [] =
     Inr (\<lparr> columns = [''timestamp'', ''sensor'', ''current''],
             rows = [[Time 0, Str ''A'', Num 5], [Time five_minutes, Str ''A'', Num 6]] \<rparr>,
          [], [ColumnsNotFound [''zz''], ConditionNotMet])"
    by (simp add: reshape_set_def get_response_plain g2 parse_zz)
       (simp add: melt_def replace_column_def replace_cell_def cell_of_def upsert_def sample_wide_def)
  show ?thesis using s1 s2 by simp
qed

section \<open>Reshape: order of the operations\<close>

lemma upsert_fresh: "k \<notin> fst ` set kvs \<Longrightarrow> upsert k v kvs = kvs @ [(k, v)]"
  by (simp add: upsert_def)

lemma read_identifiers_zip:
  "distinct cols \<Longrightarrow> length ids = length cols \<Longrightarrow> list_all (\<lambda>i. i \<noteq> []) ids \<Longrightarrow>
   set cols \<inter> fst ` set acc = {} \<Longrightarrow>
   read_identifiers cols acc (ids @ rest) ms = Inr (acc @ zip cols ids, rest, ms)"
proof (induction cols arbitrary: ids acc)
  case Nil
  then show ?case by simp
next
  case (Cons c cs)
  then obtain i is' where ids: "ids = i # is'" by (cases ids) auto
  with Cons.prems have i: "i \<noteq> []" and l: "length is' = length cs"
    and a: "list_all (\<lambda>i. i \<noteq> []) is'" and d: "distinct cs" and c: "c \<notin> set cs"
    and f: "c \<notin> fst ` set acc" and f': "set cs \<inter> fst ` set acc = {}"
    by auto
  have "set cs \<inter> fst ` set (acc @ [(c, i)]) = {}" using f' c by auto
  from Cons.IH[OF d l a this]
  show ?case using i f by (simp add: ids get_response_plain upsert_fresh)
qed

lemma response_is_column_ok:
  "list_all (\<lambda>c. c \<in> set (columns wide)) (parse_columns s) \<Longrightarrow> response_is_column wide s = (True, [])"
  by (simp add: response_is_column_def Let_def filter_empty_conv list_all_iff)

lemma reshape_set_wf:
  assumes "wf_entry wide (dest, s, ids)"
  shows "reshape_set wide tc gc (dest # s # ids @ rest) ms =
           (case spec_melted wide tc gc (group_of (dest, s, ids)) of
              Inl err \<Rightarrow> Inl err
            | Inr m \<Rightarrow> Inr (m, rest, ms))"
proof -
  from assms have d: "dest \<noteq> []" and s: "s \<noteq> []"
    and p: "list_all (\<lambda>c. c \<in> set (columns wide)) (parse_columns s)"
    and di: "distinct (parse_columns s)" and l: "length ids = length (parse_columns s)"
    and i: "list_all (\<lambda>i. i \<noteq> []) ids"
    by (simp_all add: wf_entry_def)
  have g: "get_response [] False (Some (response_is_column wide)) (s # ids @ rest) ms = Inr (s, ids @ rest, ms)"
    using get_response_accept[of s "response_is_column wide" "[]" "ids @ rest" ms] s
      response_is_column_ok[OF p] by simp
  have r: "read_identifiers (parse_columns s) [] (ids @ rest) ms = Inr (zip (parse_columns s) ids, rest, ms)"
    using read_identifiers_zip[OF di l i, of "[]" rest ms] by simp
  show ?thesis
    by (simp add: reshape_set_def get_response_plain[OF d] g r spec_melted_def group_of_def
        split: sum.splits)
qed

lemma reshape_sets_wf:
  "list_all (wf_entry wide) es \<Longrightarrow>
   reshape_sets wide tc gc (length es) acc (responses es @ rest) ms =
     (case first_error (map (spec_melted wide tc gc) (map group_of es)) of
        Inl err \<Rightarrow> Inl err
      | Inr ts \<Rightarrow> Inr (acc @ ts, rest, ms))"
proof (induction es arbitrary: acc)
  case Nil
  then show ?case by (simp add: responses_def)
next
  case (Cons e es)
  obtain dest s ids where e: "e = (dest, s, ids)" by (cases e)
  from Cons.prems have w: "wf_entry wide (dest, s, ids)" and ws: "list_all (wf_entry wide) es"
    by (simp_all add: e)
  have r: "responses (e # es) @ rest = dest # s # ids @ (responses es @ rest)"
    by (simp add: responses_def e)
  show ?case
    unfolding r
    by (simp add: reshape_set_wf[OF w] e Cons.IH[OF ws] split: sum.splits)
qed

lemma merge_all_foldl:
  "merge_all t ts keys =
     foldl (\<lambda>acc t'. case acc of Inl err \<Rightarrow> Inl err | Inr joined \<Rightarrow> merge_outer joined t' keys) (Inr t) ts"
proof (induction ts arbitrary: t)
  case Nil
  then show ?case by simp
next
  case (Cons u us)
  have stuck: "foldl (\<lambda>acc t'. case acc of Inl err \<Rightarrow> Inl err | Inr joined \<Rightarrow> merge_outer joined t' keys) (Inl e) xs = Inl e"
    for e xs by (induction xs) simp_all
  show ?case
    by (cases "merge_outer t u keys") (simp_all add: Cons.IH stuck)
qed

lemma set_constant_fresh:
  "c \<notin> set (columns d) \<Longrightarrow>
   set_constant d c v = \<lparr> columns = columns d @ [c], rows = map (\<lambda>r. r @ [v]) (rows d) \<rparr>"
  by (simp add: set_constant_def)

lemma constants_appended:
  "distinct (map fst cs) \<Longrightarrow> set (map fst cs) \<inter> set (columns d) = {} \<Longrightarrow>
   foldl (\<lambda>d (c, v). set_constant d c v) d cs =
     \<lparr> columns = columns d @ map fst cs, rows = map (\<lambda>r. r @ map snd cs) (rows d) \<rparr>"
proof (induction cs arbitrary: d)
  case Nil
  then show ?case by simp
next
  case (Cons a cs)
  obtain c v where a: "a = (c, v)" by (cases a)
  let ?d = "\<lparr> columns = columns d @ [c], rows = map (\<lambda>r. r @ [v]) (rows d) \<rparr>"
  from Cons.prems a have f: "c \<notin> set (columns d)" and di: "distinct (map fst cs)"
    and fr: "set (map fst cs) \<inter> set (columns ?d) = {}"
    by auto
  show ?case
    using Cons.IH[OF di fr] by (simp add: a set_constant_fresh[OF f] o_def)
qed

lemma first_error_length: "first_error xs = Inr vs \<Longrightarrow> length vs = length xs"
  by (induction xs arbitrary: vs) (auto split: sum.splits)

lemma sort_values_sorted:
  "sort_values d by = Inr t \<Longrightarrow> sorted (map (\<lambda>r. cell_key (cell_of (columns t) r by)) (rows t))"
  by (auto simp: sort_values_def split: if_splits)

lemma spec_table_sorted:
  "spec_table wide tc gc groups = Inr t \<Longrightarrow>
   sorted (map (\<lambda>r. cell_key (cell_of (columns t) r tc)) (rows t))"
  by (auto simp: spec_table_def split: sum.splits list.splits dest: sort_values_sorted)

lemma reshape_refines:
  assumes ne: "es \<noteq> []" and wf: "list_all (wf_entry wide) es"
    and di: "distinct (map fst constants)"
    and fresh: "\<forall>t. spec_table wide tc gc (map group_of es) = Inr t \<longrightarrow>
                 set (map fst constants) \<inter> set (columns t) = {}"
  shows "reshape wide tc (int (length es)) gc constants (responses es @ rest) ms =
           (case spec_reshape wide tc gc (map group_of es) constants of
              Inl err \<Rightarrow> Inl err
            | Inr long \<Rightarrow> Inr (long, rest, ms))"
proof -
  let ?groups = "map group_of es"
  let ?melts = "first_error (map (spec_melted wide tc gc) ?groups)"
  have sets: "reshape_sets wide tc gc (nat (int (length es))) [] (responses es @ rest) ms =
          (case ?melts of Inl err \<Rightarrow> Inl err | Inr ts \<Rightarrow> Inr (ts, rest, ms))"
    using reshape_sets_wf[OF wf, of tc gc "[]" rest ms] by (simp split: sum.splits del: map_map)
  show ?thesis
  proof (cases ?melts)
    case (Inl e)
    then show ?thesis
      unfolding reshape_def sets by (simp add: spec_reshape_def spec_table_def)
  next
    case (Inr ts)
    from first_error_length[OF Inr] ne have "ts \<noteq> []" by auto
    then obtain t ts' where ts: "ts = t # ts'" by (cases ts) auto
    let ?join = "foldl (\<lambda>acc t'. case acc of Inl err \<Rightarrow> Inl err
                                 | Inr joined \<Rightarrow> merge_outer joined t' [tc, gc]) (Inr t) ts'"
    have m: "merge_all t ts' [tc, gc] = ?join" by (rule merge_all_foldl)
    show ?thesis
    proof (cases ?join)
      case (Inl e)
      then show ?thesis
        unfolding reshape_def sets using Inr ts m
        by (simp add: spec_reshape_def spec_table_def)
    next
      case j: (Inr joined)
      show ?thesis
      proof (cases "sort_values joined tc")
        case (Inl e)
        then show ?thesis
          unfolding reshape_def sets using Inr ts m j
          by (simp add: spec_reshape_def spec_table_def)
      next
        case s: (Inr sorted_df)
        have st: "spec_table wide tc gc ?groups = Inr sorted_df"
          using Inr ts j s by (simp add: spec_table_def)
        with fresh have "set (map fst constants) \<inter> set (columns sorted_df) = {}" by blast
        from constants_appended[OF di this]
        show ?thesis
          unfolding reshape_def sets using Inr ts m j s st
          by (simp add: spec_reshape_def)
      qed
    qed
  qed
qed

text \<open>
  Claim C9. For the console input of \<open>N \<ge> 1\<close> well-formed measurement entries, \<open>reshape\<close>
  returns what the specification's pipeline returns on the grouping specs they denote:
  the melted tables joined by full outer join on the time and grouping columns, folded
  from the left in group order, then sorted by the time column (the time keys of the
  sorted table are in ascending order), then the constant columns appended last, each
  with its value in every row. The constants are those of a dict (distinct names) and
  name no column of the joined table.
\<close>

theorem reshape_in_group_order:
  assumes ne: "es \<noteq> []" and wf: "list_all (wf_entry wide) es"
    and di: "distinct (map fst constants)"
    and fresh: "\<forall>t. spec_table wide tc gc (map group_of es) = Inr t \<longrightarrow>
                 set (map fst constants) \<inter> set (columns t) = {}"
  shows "reshape wide tc (int (length es)) gc constants (responses es @ rest) ms =
           (case spec_reshape wide tc gc (map group_of es) constants of
              Inl err \<Rightarrow> Inl err
            | Inr long \<Rightarrow> Inr (long, rest, ms))
         \<and> (\<forall>t. spec_table wide tc gc (map group_of es) = Inr t \<longrightarrow>
               sorted (map (\<lambda>r. cell_key (cell_of (columns t) r tc)) (rows t)))"
  using reshape_refines [OF assms] spec_table_sorted by blast

lemma sample_spec_table:
  "spec_table sample_wide ''timestamp'' ''sensor'' (map group_of sample_entries) = Inr sample_long"
  by code_simp

lemma sample_entries_wf: "list_all (wf_entry sample_wide) sample_entries"
  by code_simp

theorem reshape_in_group_order_witness:
  "sample_entries \<noteq> [] \<and> list_all (wf_entry sample_wide) sample_entries
   \<and> distinct (map fst [(''block'', Str ''7'')])
   \<and> spec_table sample_wide ''timestamp'' ''sensor'' (map group_of sample_entries) = Inr sample_long
   \<and> set (map fst [(''block'', Str ''7'')]) \<inter> set (columns sample_long) = {}
   \<and> reshape sample_wide ''timestamp'' 2 ''sensor'' [(''block'', Str ''7'')]
        [''voltage'', ''v1, v2'', ''A'', ''B'', ''current'', ''i1'', ''A''] [] =
      Inr (\<lparr> columns = [''timestamp'', ''sensor'', ''voltage'', ''current'', ''block''],
              rows = [[Time 0, Str ''A'', Num 1, Num 5, Str ''7''],
                      [Time 0, Str ''B'', Num 10, NaN, Str ''7''],
                      [Time five_minutes, Str ''A'', Num 2, Num 6, Str ''7''],
                      [Time five_minutes, Str ''B'', Num 20, NaN, Str ''7'']] \<rparr>, [], [])
   \<and> sorted (map (\<lambda>r. cell_key (cell_of (columns sample_long) r ''timestamp'')) (rows sample_long))"
proof -
  have ne: "sample_entries \<noteq> []" by (simp add: sample_entries_def)
  have di: "distinct (map fst [(''block'', Str ''7'')])" by simp
  have fr: "set (map fst [(''block'', Str ''7'')]) \<inter> set (columns sample_long) = {}"
    by (simp add: sample_long_def)
  have fresh: "\<forall>t. spec_table sample_wide ''timestamp'' ''sensor'' (map group_of sample_entries) = Inr t \<longrightarrow>
                 set (map fst [(''block'', Str ''7'')]) \<inter> set (columns t) = {}"
    using fr by (simp add: sample_spec_table)
  have r: "responses sample_entries @ [] = [''voltage'', ''v1, v2'', ''A'', ''B'', ''current'', ''i1'', ''A'']"
    by (simp add: responses_def sample_entries_def)
  have l: "int (length sample_entries) = 2" by (simp add: sample_entries_def)
  note t = reshape_in_group_order [OF ne sample_entries_wf di fresh, of "[]" "[]"]
  have "reshape sample_wide ''timestamp'' 2 ''sensor'' [(''block'', Str ''7'')]
        [''voltage'', ''v1, v2'', ''A'', ''B'', ''current'', ''i1'', ''A''] [] =
      Inr (\<lparr> columns = columns sample_long @ [''block''],
              rows = map (\<lambda>r. r @ [Str ''7'']) (rows sample_long) \<rparr>, [], [])"
    using conjunct1 [OF t] unfolding r l by (simp add: spec_reshape_def sample_spec_table)
  moreover have "sorted (map (\<lambda>r. cell_key (cell_of (columns sample_long) r ''timestamp'')) (rows sample_long))"
    using conjunct2 [OF t] sample_spec_table by blast
  ultimately show ?thesis
    using ne sample_entries_wf di sample_spec_table fr by (simp add: sample_long_def)
qed

section \<open>Reshape: no value is lost\<close>

lemma comparable_iff:
  "comparable cs \<longleftrightarrow> (\<forall>a\<in>set cs. \<forall>b\<in>set cs. a = NaN \<or> b = NaN \<or> cell_kind a = cell_kind b)"
  by (simp add: comparable_def list_all_iff)

lemma melt_two:
  assumes "colA \<in> set (columns wide)" "colB \<in> set (columns wide)" "tc \<in> set (columns wide)"
    "v \<notin> set (columns wide)"
  shows "melt wide tc [colA, colB] gc v =
           Inr \<lparr> columns = [tc, gc, v],
                 rows = map (\<lambda>r. [cell_of (columns wide) r tc, Str colA, cell_of (columns wide) r colA]) (rows wide)
                      @ map (\<lambda>r. [cell_of (columns wide) r tc, Str colB, cell_of (columns wide) r colB]) (rows wide) \<rparr>"
  using assms by (simp add: melt_def)

text \<open>
  Claim C7. A wide table whose time column is strictly increasing is reshaped with one
  measurement made of two columns \<open>colA\<close> and \<open>colB\<close>, mapped to distinct identifiers
  \<open>idA\<close> and \<open>idB\<close>. In the long table, the rows of group \<open>idA\<close> carry, in order and
  paired with their timestamps, the values of \<open>wide[colA]\<close>, and the rows of group \<open>idB\<close>
  those of \<open>wide[colB]\<close>.
\<close>

theorem reshape_keeps_values:
  assumes v: "v \<noteq> []" and s: "parse_columns s = [colA, colB]" and ab: "colA \<noteq> colB"
    and ids: "idA \<noteq> idB" "idA \<noteq> []" "idB \<noteq> []"
    and cols: "colA \<in> set (columns wide)" "colB \<in> set (columns wide)" "tc \<in> set (columns wide)"
    and fresh: "v \<notin> set (columns wide)" and names: "distinct [tc, gc, v]"
    and cmp: "comparable (map (\<lambda>r. cell_of (columns wide) r tc) (rows wide))"
    and inc: "sorted_wrt (<) (map (\<lambda>r. cell_key (cell_of (columns wide) r tc)) (rows wide))"
  shows "\<exists>long. reshape wide tc 1 gc [] (v # s # idA # idB # rest) ms = Inr (long, rest, ms)
           \<and> columns long = [tc, gc, v]
           \<and> map (\<lambda>r. (cell_of (columns long) r tc, cell_of (columns long) r v))
                 (filter (\<lambda>r. cell_of (columns long) r gc = Str idA) (rows long))
               = map (\<lambda>r. (cell_of (columns wide) r tc, cell_of (columns wide) r colA)) (rows wide)
           \<and> map (\<lambda>r. (cell_of (columns long) r tc, cell_of (columns long) r v))
                 (filter (\<lambda>r. cell_of (columns long) r gc = Str idB) (rows long))
               = map (\<lambda>r. (cell_of (columns wide) r tc, cell_of (columns wide) r colB)) (rows wide)"
proof -
  let ?time = "\<lambda>r. cell_of (columns wide) r tc"
  let ?rowA = "\<lambda>r. [?time r, Str idA, cell_of (columns wide) r colA]"
  let ?rowB = "\<lambda>r. [?time r, Str idB, cell_of (columns wide) r colB]"
  let ?rows = "map ?rowA (rows wide) @ map ?rowB (rows wide)"
  let ?key = "\<lambda>r. cell_key (cell_of [tc, gc, v] r tc)"
  let ?long = "\<lparr> columns = [tc, gc, v], rows = sort_key ?key ?rows \<rparr>"
  have sne: "s \<noteq> []" using s by (auto simp: parse_columns_def)
  have wf: "list_all (wf_entry wide) [(v, s, [idA, idB])]"
    using v sne s ab ids cols by (simp add: wf_entry_def)
  have g: "group_of (v, s, [idA, idB]) = (v, [colA, colB], [(colA, idA), (colB, idB)])"
    by (simp add: group_of_def s)
  have i0: "index_of tc [tc, gc, v] = 0" and i1: "index_of gc [tc, gc, v] = 1"
    and i2: "index_of v [tc, gc, v] = 2"
    using names by auto
  have rep: "replace_column \<lparr> columns = [tc, gc, v],
                 rows = map (\<lambda>r. [?time r, Str colA, cell_of (columns wide) r colA]) (rows wide)
                      @ map (\<lambda>r. [?time r, Str colB, cell_of (columns wide) r colB]) (rows wide) \<rparr>
               gc [(colA, idA), (colB, idB)]
             = \<lparr> columns = [tc, gc, v], rows = ?rows \<rparr>"
    using ab names by (simp add: replace_column_def cell_of_def replace_cell_def)
  have cmp': "comparable (map (\<lambda>r. cell_of [tc, gc, v] r tc) ?rows)"
    using cmp by (auto simp: comparable_iff cell_of_def)
  have table: "spec_table wide tc gc [(v, [colA, colB], [(colA, idA), (colB, idB)])] = Inr ?long"
    using cmp' by (simp add: spec_table_def spec_melted_def melt_two[OF cols fresh] rep sort_values_def)
  have "reshape wide tc (int (length [(v, s, [idA, idB])])) gc [] (responses [(v, s, [idA, idB])] @ rest) ms =
           (case spec_reshape wide tc gc (map group_of [(v, s, [idA, idB])]) [] of
              Inl err \<Rightarrow> Inl err
            | Inr long \<Rightarrow> Inr (long, rest, ms))"
    using wf by (intro reshape_refines) simp_all
  then have r: "reshape wide tc 1 gc [] (v # s # idA # idB # rest) ms = Inr (?long, rest, ms)"
    by (simp add: responses_def g spec_reshape_def table)
  have srt: "sorted (map ?key (map ?rowA (rows wide)))" "sorted (map ?key (map ?rowB (rows wide)))"
    using inc by (simp_all add: o_def cell_of_def strict_sorted_iff)
  have fA: "filter (\<lambda>r. cell_of [tc, gc, v] r gc = Str idA) (sort_key ?key ?rows) = map ?rowA (rows wide)"
  proof -
    have "filter (\<lambda>r. cell_of [tc, gc, v] r gc = Str idA) ?rows = map ?rowA (rows wide)"
      using ids(1) names by (simp add: filter_map o_def cell_of_def)
    then show ?thesis
      using srt(1) by (simp only: filter_sort sort_key_id_if_sorted)
  qed
  have fB: "filter (\<lambda>r. cell_of [tc, gc, v] r gc = Str idB) (sort_key ?key ?rows) = map ?rowB (rows wide)"
  proof -
    have "filter (\<lambda>r. cell_of [tc, gc, v] r gc = Str idB) ?rows = map ?rowB (rows wide)"
      using ids(1) names by (simp add: filter_map o_def cell_of_def)
    then show ?thesis
      using srt(2) by (simp only: filter_sort sort_key_id_if_sorted)
  qed
  show ?thesis
    using r names by (intro exI[of _ ?long]) (simp add: fA fB o_def, simp add: cell_of_def)
qed

theorem reshape_keeps_values_witness:
  "''voltage'' \<noteq> [] \<and> parse_columns ''v1, v2'' = [''v1'', ''v2''] \<and> ''v1'' \<noteq> ''v2''
   \<and> ''A'' \<noteq> ''B'' \<and> ''A'' \<noteq> [] \<and> ''B'' \<noteq> []
   \<and> ''v1'' \<in> set (columns sample_wide) \<and> ''v2'' \<in> set (columns sample_wide)
   \<and> ''timestamp'' \<in> set (columns sample_wide) \<and> ''voltage'' \<notin> set (columns sample_wide)
   \<and> distinct [''timestamp'', ''sensor'', ''voltage'']
   \<and> comparable (map (\<lambda>r. cell_of (columns sample_wide) r ''timestamp'') (rows sample_wide))
   \<and> sorted_wrt (<) (map (\<lambda>r. cell_key (cell_of (columns sample_wide) r ''timestamp'')) (rows sample_wide))
   \<and> (\<exists>long. reshape sample_wide ''timestamp'' 1 ''sensor'' [] [''voltage'', ''v1, v2'', ''A'', ''B''] []
                = Inr (long, [], [])
          \<and> columns long = [''timestamp'', ''sensor'', ''voltage'']
          \<and> map (\<lambda>r. (cell_of (columns long) r ''timestamp'', cell_of (columns long) r ''voltage''))
                (filter (\<lambda>r. cell_of (columns long) r ''sensor'' = Str ''A'') (rows long))
              = [(Time 0, Num 1), (Time five_minutes, Num 2)]
          \<and> map (\<lambda>r. (cell_of (columns long) r ''timestamp'', cell_of (columns long) r ''voltage''))
                (filter (\<lambda>r. cell_of (columns long) r ''sensor'' = Str ''B'') (rows long))
              = [(Time 0, Num 10), (Time five_minutes, Num 20)])"
proof -
  have h: "''voltage'' \<noteq> []" "parse_columns ''v1, v2'' = [''v1'', ''v2'']" "''v1'' \<noteq> ''v2''"
    "''A'' \<noteq> ''B''" "''A'' \<noteq> []" "''B'' \<noteq> []"
    "''v1'' \<in> set (columns sample_wide)" "''v2'' \<in> set (columns sample_wide)"
    "''timestamp'' \<in> set (columns sample_wide)" "''voltage'' \<notin> set (columns sample_wide)"
    "distinct [''timestamp'', ''sensor'', ''voltage'']"
    by (simp_all add: parse_columns_def sample_wide_def)
  have c: "comparable (map (\<lambda>r. cell_of (columns sample_wide) r ''timestamp'') (rows sample_wide))"
    by (simp add: comparable_def cell_of_def sample_wide_def)
  have i: "sorted_wrt (<) (map (\<lambda>r. cell_key (cell_of (columns sample_wide) r ''timestamp'')) (rows sample_wide))"
    by (simp add: cell_of_def sample_wide_def five_minutes_def)
  have a: "map (\<lambda>r. (cell_of (columns sample_wide) r ''timestamp'', cell_of (columns sample_wide) r ''v1''))
             (rows sample_wide) = [(Time 0, Num 1), (Time five_minutes, Num 2)]"
    and b: "map (\<lambda>r. (cell_of (columns sample_wide) r ''timestamp'', cell_of (columns sample_wide) r ''v2''))
             (rows sample_wide) = [(Time 0, Num 10), (Time five_minutes, Num 20)]"
    by (simp_all add: cell_of_def sample_wide_def)
  show ?thesis
    using reshape_keeps_values [OF h c i, of "[]" "[]"] h c i unfolding a b by blast
qed

end
